theory Spec2Isabelle
  imports Main "HOL-Library.Multiset"
begin

section \<open>Ancillary routines of pyroSAR: a shallow embedding of \<^verbatim>\<open>pyroSAR/ancillary.py\<close>\<close>

text \<open>
  The Python exceptions the four functions can raise. A function that may raise returns
  \<open>error + 'a\<close>, with \<open>Inl\<close> for the exception.
\<close>

datatype error = IndexError | ValueError | TypeError | KeyError

subsection \<open>groupbyTime\<close>

text \<open>
  \<^verbatim>\<open>
  def groupbyTime(images, function, time):
      srcfiles = sorted(images, key=function)
      groups = [[srcfiles[0]]]
      group = groups[0]
      for i in range(1, len(srcfiles)):
          item = srcfiles[i]
          if 0 < abs(function(item) - function(group[-1])) <= time:
              group.append(item)
          else:
              groups.append([item])
              group = groups[-1]
      return [x[0] if len(x) == 1 else x for x in groups]
  \<close>
  Python's \<open>sorted\<close> is a stable sort by key, as \<^const>\<open>sort_key\<close> is. Time values are
  numbers of any linearly ordered ring (\<open>int\<close>, \<open>rat\<close>, \<open>real\<close>). The variable
  \<open>group\<close> is an alias of the last element of \<open>groups\<close> throughout the loop, so appending
  to \<open>group\<close> changes the last element of \<open>groups\<close>. The returned list holds bare items
  and lists; \<open>entry\<close> is that union.
\<close>

datatype 'a entry = Item 'a | Items "'a list"

definition close_in_time :: "('a \<Rightarrow> 't::linordered_idom) \<Rightarrow> 't \<Rightarrow> 'a \<Rightarrow> 'a \<Rightarrow> bool" where
  "close_in_time function time prev item \<longleftrightarrow>
     0 < \<bar>function item - function prev\<bar> \<and> \<bar>function item - function prev\<bar> \<le> time"

definition scan_step :: "('a \<Rightarrow> 't::linordered_idom) \<Rightarrow> 't \<Rightarrow> 'a list list \<Rightarrow> 'a \<Rightarrow> 'a list list" where
  "scan_step function time groups item =
     (if close_in_time function time (last (last groups)) item
      then butlast groups @ [last groups @ [item]]
      else groups @ [[item]])"

definition unwrap :: "'a list \<Rightarrow> 'a entry" where
  "unwrap x = (if length x = 1 then Item (hd x) else Items x)"

definition groupbyTime :: "'a list \<Rightarrow> ('a \<Rightarrow> 't::linordered_idom) \<Rightarrow> 't \<Rightarrow> error + 'a entry list" where
  "groupbyTime images function time =
     (case sort_key function images of
        [] \<Rightarrow> Inl IndexError
      | first # rest \<Rightarrow> Inr (map unwrap (foldl (scan_step function time) [[first]] rest)))"

text \<open>The members of an entry of the result: a bare item stands for a group of one.\<close>

fun members :: "'a entry \<Rightarrow> 'a list" where
  "members (Item x) = [x]"
| "members (Items xs) = xs"

subsection \<open>The date-time library behind seconds and parse_datasetname\<close>

text \<open>
  Both functions call \<^verbatim>\<open>datetime.strptime(text, '%Y%m%dT%H%M%S')\<close> of the Python standard
  library. The library compiles the format into the regular expression
  \<^verbatim>\<open>(?P<Y>\d\d\d\d)(?P<m>1[0-2]|0[1-9]|[1-9])(?P<d>3[0-1]|[1-2]\d|0[1-9]|[1-9]| [1-9])T(?P<H>2[0-3]|[0-1]\d|\d)(?P<M>[0-5]\d|\d)(?P<S>6[0-1]|[0-5]\d|\d)\<close>
  (matched ignoring case), matches it at the start of the text with backtracking, raises
  ValueError when it does not match or when text remains after the match, converts the six
  captures with \<^verbatim>\<open>int\<close> and builds the datetime, whose constructor raises ValueError
  for a field out of range. Strings are lists of 8-bit characters, among which the class
  \<^verbatim>\<open>\d\<close> holds the ten ASCII digits only.

  A character class is the string of its members, an alternative is a sequence of classes,
  a group is the list of its alternatives in the order the matcher tries them.
\<close>

type_synonym alternative = "string list"

fun match_alt :: "alternative \<Rightarrow> string \<Rightarrow> bool" where
  "match_alt [] s = True"
| "match_alt (cls # k) [] = False"
| "match_alt (cls # k) (c # cs) = (c \<in> set cls \<and> match_alt k cs)"

text \<open>
  Matching a sequence of groups at the start of a text: the captures and the text left,
  or \<open>None\<close>. The head of the list holds the alternatives of the first group that are
  still to be tried; when the rest of the expression fails after one alternative, the
  next one is tried.
\<close>

fun match_groups :: "alternative list list \<Rightarrow> string \<Rightarrow> (string list \<times> string) option" where
  "match_groups [] s = Some ([], s)"
| "match_groups ([] # gs) s = None"
| "match_groups ((a # as) # gs) s =
     (if match_alt a s
      then (case match_groups gs (drop (length a) s) of
              Some (caps, rest) \<Rightarrow> Some (take (length a) s # caps, rest)
            | None \<Rightarrow> match_groups (as # gs) s)
      else match_groups (as # gs) s)"

definition digits :: string where
  "digits = ''0123456789''"

definition nonzero :: string where
  "nonzero = ''123456789''"

text \<open>The expressions of the directives and of the literal \<open>T\<close> of the format.\<close>

definition directive_Y :: "alternative list" where
  "directive_Y = [[digits, digits, digits, digits]]"

definition directive_m :: "alternative list" where
  "directive_m = [[''1'', ''012''], [''0'', nonzero], [nonzero]]"

definition directive_d :: "alternative list" where
  "directive_d = [[''3'', ''01''], [''12'', digits], [''0'', nonzero], [nonzero], ['' '', nonzero]]"

definition literal_T :: "alternative list" where
  "literal_T = [[''Tt'']]"

definition directive_H :: "alternative list" where
  "directive_H = [[''2'', ''0123''], [''01'', digits], [digits]]"

definition directive_M :: "alternative list" where
  "directive_M = [[''012345'', digits], [digits]]"

definition directive_S :: "alternative list" where
  "directive_S = [[''6'', ''01''], [''012345'', digits], [digits]]"

definition format_regex :: "alternative list list" where
  "format_regex =
     [directive_Y, directive_m, directive_d, literal_T, directive_H, directive_M, directive_S]"

text \<open>\<^verbatim>\<open>int(text)\<close> on a capture: decimal digits, a leading blank (of the day) skipped.\<close>

definition digit_value :: "char \<Rightarrow> nat" where
  "digit_value c = of_char c - 48"

definition int_of_text :: "string \<Rightarrow> nat" where
  "int_of_text s = foldl (\<lambda>n c. 10 * n + digit_value c) 0 (filter (\<lambda>c. c \<noteq> CHR '' '') s)"

record datetime =
  year :: nat
  month :: nat
  day :: nat
  hour :: nat
  minute :: nat
  second :: nat

definition is_leap :: "nat \<Rightarrow> bool" where
  "is_leap y \<longleftrightarrow> y mod 4 = 0 \<and> (y mod 100 \<noteq> 0 \<or> y mod 400 = 0)"

text \<open>The library's tables, indexed by the month; index 0 is a placeholder.\<close>

definition DAYS_IN_MONTH :: "nat list" where
  "DAYS_IN_MONTH = [0, 31, 28, 31, 30, 31, 30, 31, 31, 30, 31, 30, 31]"

definition DAYS_BEFORE_MONTH :: "nat list" where
  "DAYS_BEFORE_MONTH = [0, 0, 31, 59, 90, 120, 151, 181, 212, 243, 273, 304, 334]"

definition days_in_month :: "nat \<Rightarrow> nat \<Rightarrow> nat" where
  "days_in_month y m = (if m = 2 \<and> is_leap y then 29 else DAYS_IN_MONTH ! m)"

text \<open>The constructor \<^verbatim>\<open>datetime(year, month, day, hour, minute, second)\<close> and its range checks.\<close>

definition make_datetime :: "nat \<Rightarrow> nat \<Rightarrow> nat \<Rightarrow> nat \<Rightarrow> nat \<Rightarrow> nat \<Rightarrow> error + datetime" where
  "make_datetime y mo d h mi s =
     (if 1 \<le> y \<and> y \<le> 9999 \<and> 1 \<le> mo \<and> mo \<le> 12 \<and> 1 \<le> d \<and> d \<le> days_in_month y mo
         \<and> h < 24 \<and> mi < 60 \<and> s < 60
      then Inr \<lparr>year = y, month = mo, day = d, hour = h, minute = mi, second = s\<rparr>
      else Inl ValueError)"

definition strptime :: "string \<Rightarrow> error + datetime" where
  "strptime text =
     (case match_groups format_regex text of
        None \<Rightarrow> Inl ValueError
      | Some (caps, rest) \<Rightarrow>
          if rest \<noteq> [] then Inl ValueError
          else make_datetime (int_of_text (caps ! 0)) (int_of_text (caps ! 1))
                 (int_of_text (caps ! 2)) (int_of_text (caps ! 4))
                 (int_of_text (caps ! 5)) (int_of_text (caps ! 6)))"

text \<open>
  Subtraction of two datetimes gives a timedelta of days and seconds, the seconds
  normalised into one day; the days come from the proleptic Gregorian ordinals.
  \<^verbatim>\<open>
  def _days_before_year(year):
      y = year - 1
      return y*365 + y//4 - y//100 + y//400
  def _days_before_month(year, month):
      return _DAYS_BEFORE_MONTH[month] + (month > 2 and _is_leap(year))
  def _ymd2ord(year, month, day):
      return _days_before_year(year) + _days_before_month(year, month) + day
  \<close>
\<close>

definition days_before_year :: "nat \<Rightarrow> int" where
  "days_before_year y =
     (let z = int y - 1 in z * 365 + z div 4 - z div 100 + z div 400)"

definition days_before_month :: "nat \<Rightarrow> nat \<Rightarrow> int" where
  "days_before_month y m =
     int (DAYS_BEFORE_MONTH ! m) + (if m > 2 \<and> is_leap y then 1 else 0)"

definition toordinal :: "datetime \<Rightarrow> int" where
  "toordinal dt = days_before_year (year dt) + days_before_month (year dt) (month dt) + int (day dt)"

record timedelta =
  td_days :: int
  td_seconds :: int

definition datetime_sub :: "datetime \<Rightarrow> datetime \<Rightarrow> timedelta" where
  "datetime_sub a b =
     (let d = toordinal a - toordinal b;
          s = (int (second a) + int (minute a) * 60 + int (hour a) * 3600)
            - (int (second b) + int (minute b) * 60 + int (hour b) * 3600)
      in \<lparr>td_days = d + s div 86400, td_seconds = s mod 86400\<rparr>)"

text \<open>
  \<^verbatim>\<open>total_seconds\<close> returns a float. The format has no fraction of a second, so the
  value is a whole number of seconds, below \<open>2^53\<close> in magnitude for every year the
  library admits, and the float holds it exactly; the model returns that integer.
\<close>

definition total_seconds :: "timedelta \<Rightarrow> int" where
  "total_seconds td = td_days td * 86400 + td_seconds td"

subsection \<open>seconds\<close>

text \<open>
  \<^verbatim>\<open>
  def seconds(filename):
      td = datetime.strptime(re.findall('[0-9T]{15}', filename)[0], '%Y%m%dT%H%M%S') - datetime(1900, 1, 1)
      return td.total_seconds()
  \<close>
  \<open>re.findall\<close> scans the text from the left: where the next 15 characters all are
  digits or \<open>T\<close> it takes them as a match and goes on behind them, otherwise it moves
  one character on.
\<close>

definition token_char :: "char \<Rightarrow> bool" where
  "token_char c \<longleftrightarrow> c \<in> set ''0123456789T''"

fun findall :: "string \<Rightarrow> string list" where
  "findall [] = []"
| "findall (c # cs) =
     (if 15 \<le> length (c # cs) \<and> list_all token_char (take 15 (c # cs))
      then take 15 (c # cs) # findall (drop 15 (c # cs))
      else findall cs)"

definition epoch :: datetime where
  "epoch = \<lparr>year = 1900, month = 1, day = 1, hour = 0, minute = 0, second = 0\<rparr>"

definition seconds :: "string \<Rightarrow> error + int" where
  "seconds filename =
     (case findall filename of
        [] \<Rightarrow> Inl IndexError
      | token # _ \<Rightarrow>
          (case strptime token of
             Inl e \<Rightarrow> Inl e
           | Inr dt \<Rightarrow> Inr (total_seconds (datetime_sub dt epoch))))"

subsection \<open>parse_datasetname\<close>

text \<open>
  \<^verbatim>\<open>
  def parse_datasetname(name, parse_date=False):
      match = re.match(re.compile(product_pattern), name)
      if not match:
          return
      out = match.groupdict()
      if out['extensions'] == '':
          out['extensions'] = None
      if len(out['proc_steps']) > 0:
          out['proc_steps'] = out['proc_steps'].split('_')
      else:
          out['proc_steps'] = None
      if parse_date:
          out['start'] = datetime.strptime(out['start'], '%Y%m%dT%H%M%S')
      return out
  \<close>
  \<open>product_pattern\<close> is imported from \<^verbatim>\<open>pyroSAR/_dev_config.py\<close>. The model takes
  \<^verbatim>\<open>re.match(re.compile(product_pattern), name)\<close> as a parameter \<open>pattern\<close>: \<open>None\<close>
  when the name does not match, otherwise the text captured by each of the seven named
  groups that the docstring lists, a group that took no part in the match giving Python's
  \<open>None\<close>.
\<close>

record captures =
  sensor :: "string option"
  acquisition_mode :: "string option"
  orbit :: "string option"
  start :: "string option"
  extensions :: "string option"
  polarization :: "string option"
  proc_steps :: "string option"

text \<open>The values a metadata dictionary holds: \<open>None\<close>, a string, a list of strings, a datetime.\<close>

datatype pyval = PNone | PStr string | PList "string list" | PDate datetime

fun capture_value :: "string option \<Rightarrow> pyval" where
  "capture_value None = PNone"
| "capture_value (Some s) = PStr s"

definition groupdict :: "captures \<Rightarrow> (string \<rightharpoonup> pyval)" where
  "groupdict g = map_of
     [(''sensor'', capture_value (sensor g)),
      (''acquisition_mode'', capture_value (acquisition_mode g)),
      (''orbit'', capture_value (orbit g)),
      (''start'', capture_value (start g)),
      (''extensions'', capture_value (extensions g)),
      (''polarization'', capture_value (polarization g)),
      (''proc_steps'', capture_value (proc_steps g))]"

text \<open>\<^verbatim>\<open>text.split(sep)\<close> for a separator of one character.\<close>

fun split :: "char \<Rightarrow> string \<Rightarrow> string list" where
  "split sep [] = [[]]"
| "split sep (c # cs) =
     (if c = sep then [] # split sep cs
      else (case split sep cs of
              [] \<Rightarrow> [[c]]
            | w # ws \<Rightarrow> (c # w) # ws))"

text \<open>
  The entries of \<open>out\<close> are read from the captures they were built from. \<open>len(None)\<close>
  and \<open>strptime(None, ...)\<close> raise TypeError.
\<close>

definition parse_datasetname ::
  "(string \<Rightarrow> captures option) \<Rightarrow> string \<Rightarrow> bool \<Rightarrow> error + (string \<rightharpoonup> pyval) option" where
  "parse_datasetname pattern name parse_date =
     (case pattern name of
        None \<Rightarrow> Inr None
      | Some g \<Rightarrow>
          let out0 = groupdict g;
              out1 = (if extensions g = Some [] then out0(''extensions'' \<mapsto> PNone) else out0)
          in (case proc_steps g of
                None \<Rightarrow> Inl TypeError
              | Some steps \<Rightarrow>
                  let out2 = (if length steps > 0
                              then out1(''proc_steps'' \<mapsto> PList (split CHR ''_'' steps))
                              else out1(''proc_steps'' \<mapsto> PNone))
                  in if parse_date
                     then (case start g of
                             None \<Rightarrow> Inl TypeError
                           | Some text \<Rightarrow>
                               (case strptime text of
                                  Inl e \<Rightarrow> Inl e
                                | Inr dt \<Rightarrow> Inr (Some (out2(''start'' \<mapsto> PDate dt)))))
                     else Inr (Some out2)))"

subsection \<open>find_datasets\<close>

text \<open>
  \<^verbatim>\<open>
  def find_datasets(directory, **kwargs):
      files = finder(directory, [product_pattern], regex=True)
      selection = []
      for file in files:
          meta = parse_datasetname(file)
          match = True
          for key, val in kwargs.items():
              if isinstance(val, tuple):
                  match = meta[key] in val
              else:
                  match = meta[key] == val
          if match:
              selection.append(file)
      return selection
  \<close>
  \<open>finder\<close> is the directory search of the package spatialist; the model takes it as a
  parameter that gives the list of files of a directory. The keyword arguments are the
  list of their (key, value) pairs in the order of \<open>kwargs.items()\<close>; a value is
  either a tuple of values or any other value. Subscripting \<open>None\<close> raises TypeError,
  a key missing from the dictionary raises KeyError.
\<close>

datatype kwarg = Value pyval | Options "pyval list"

fun check_kwargs :: "(string \<rightharpoonup> pyval) option \<Rightarrow> (string \<times> kwarg) list \<Rightarrow> bool \<Rightarrow> error + bool" where
  "check_kwargs meta [] match = Inr match"
| "check_kwargs None ((key, val) # kwargs) match = Inl TypeError"
| "check_kwargs (Some m) ((key, val) # kwargs) match =
     (case m key of
        None \<Rightarrow> Inl KeyError
      | Some v \<Rightarrow>
          check_kwargs (Some m) kwargs
            (case val of Options vals \<Rightarrow> v \<in> set vals | Value x \<Rightarrow> v = x))"

fun select_files ::
  "(string \<Rightarrow> captures option) \<Rightarrow> (string \<times> kwarg) list \<Rightarrow> string list \<Rightarrow> string list
     \<Rightarrow> error + string list" where
  "select_files pattern kwargs [] selection = Inr selection"
| "select_files pattern kwargs (file # files) selection =
     (case parse_datasetname pattern file False of
        Inl e \<Rightarrow> Inl e
      | Inr meta \<Rightarrow>
          (case check_kwargs meta kwargs True of
             Inl e \<Rightarrow> Inl e
           | Inr match \<Rightarrow>
               select_files pattern kwargs files
                 (if match then selection @ [file] else selection)))"

definition find_datasets ::
  "(string \<Rightarrow> string list) \<Rightarrow> (string \<Rightarrow> captures option) \<Rightarrow> string \<Rightarrow> (string \<times> kwarg) list
     \<Rightarrow> error + string list" where
  "find_datasets finder pattern directory kwargs =
     select_files pattern kwargs (finder directory) []"

definition metadata_keys :: "string list" where
  "metadata_keys = [''sensor'', ''acquisition_mode'', ''orbit'', ''start'', ''extensions'',
     ''polarization'', ''proc_steps'']"

subsection \<open>Sample data\<close>

text \<open>
  A pattern given by the table of its captures on four file names (the first is the one
  of the docstring of parse_datasetname) and a finder for a directory that holds three of
  them, to run the functions on concrete inputs.
\<close>

definition sample_product :: "string \<Rightarrow> string \<Rightarrow> string \<Rightarrow> string \<Rightarrow> string \<Rightarrow> string \<Rightarrow> string \<Rightarrow> captures" where
  "sample_product s a orb t e p steps =
     \<lparr>sensor = Some s, acquisition_mode = Some a, orbit = Some orb, start = Some t,
      extensions = Some e, polarization = Some p, proc_steps = Some steps\<rparr>"

definition sample_pattern :: "string \<Rightarrow> captures option" where
  "sample_pattern = map_of
     [(''S1A__IW___A_20150309T173017_VV_grd_mli_geo_norm_db.tif'',
         sample_product ''S1A'' ''IW'' ''A'' ''20150309T173017'' [] ''VV'' ''grd_mli_geo_norm_db''),
      (''S1B__IW___D_20170102T050607_VH_grd_mli.tif'',
         sample_product ''S1B'' ''IW'' ''D'' ''20170102T050607'' [] ''VH'' ''grd_mli''),
      (''ERS2_IMP__D_19960229T101112_VV_geo.tif'',
         sample_product ''ERS2'' ''IMP'' ''D'' ''19960229T101112'' [] ''VV'' ''geo''),
      (''S1A__EW___A_20150231T000000_HH_.tif'',
         sample_product ''S1A'' ''EW'' ''A'' ''20150231T000000'' [] ''HH'' [])]"

definition sample_finder :: "string \<Rightarrow> string list" where
  "sample_finder directory =
     (if directory = ''path/to/files''
      then [''S1A__IW___A_20150309T173017_VV_grd_mli_geo_norm_db.tif'',
            ''S1B__IW___D_20170102T050607_VH_grd_mli.tif'',
            ''ERS2_IMP__D_19960229T101112_VV_geo.tif'']
      else [])"

subsection \<open>What the specification says, in its own words\<close>

text \<open>
  The date-time token of the specification: 8 digits, the separator \<open>T\<close>, 6 digits.
\<close>

definition spec_token_shape :: "string \<Rightarrow> bool" where
  "spec_token_shape tok \<longleftrightarrow>
     length tok = 15 \<and> list_all (\<lambda>c. c \<in> set digits) (take 8 tok) \<and> tok ! 8 = CHR ''T''
       \<and> list_all (\<lambda>c. c \<in> set digits) (drop 9 tok)"

text \<open>The fields of a token \<open>YYYYMMDDThhmmss\<close>, read by position.\<close>

definition decode_token :: "string \<Rightarrow> datetime" where
  "decode_token tok =
     \<lparr>year = int_of_text (take 4 tok),
      month = int_of_text (take 2 (drop 4 tok)),
      day = int_of_text (take 2 (drop 6 tok)),
      hour = int_of_text (take 2 (drop 9 tok)),
      minute = int_of_text (take 2 (drop 11 tok)),
      second = int_of_text (take 2 (drop 13 tok))\<rparr>"

text \<open>A valid calendar date-time of the Gregorian calendar, from the year 1 on.\<close>

definition valid_datetime :: "datetime \<Rightarrow> bool" where
  "valid_datetime dt \<longleftrightarrow>
     1 \<le> year dt \<and> 1 \<le> month dt \<and> month dt \<le> 12
       \<and> 1 \<le> day dt \<and> day dt \<le> days_in_month (year dt) (month dt)
       \<and> hour dt < 24 \<and> minute dt < 60 \<and> second dt < 60"

definition spec_valid_token :: "string \<Rightarrow> bool" where
  "spec_valid_token tok \<longleftrightarrow> spec_token_shape tok \<and> valid_datetime (decode_token tok)"

text \<open>A text contains a substring of the shape of a token, or a valid token.\<close>

fun spec_contains_shape :: "string \<Rightarrow> bool" where
  "spec_contains_shape [] = False"
| "spec_contains_shape (c # cs) = (spec_token_shape (take 15 (c # cs)) \<or> spec_contains_shape cs)"

fun spec_contains_valid_token :: "string \<Rightarrow> bool" where
  "spec_contains_valid_token [] = False"
| "spec_contains_valid_token (c # cs) =
     (spec_valid_token (take 15 (c # cs)) \<or> spec_contains_valid_token cs)"

text \<open>
  The seconds elapsed from 1900-01-01T00:00:00 to a date-time, counted day by day:
  the days of the whole years between, the days of the whole months of the last year,
  the days of the month, and the time of day.
\<close>

definition days_in_year :: "nat \<Rightarrow> nat" where
  "days_in_year y = (if is_leap y then 366 else 365)"

definition spec_days_since_1900 :: "nat \<Rightarrow> nat \<Rightarrow> nat \<Rightarrow> int" where
  "spec_days_since_1900 y m d =
     (if 1900 \<le> y then int (sum_list (map days_in_year [1900..<y]))
      else - int (sum_list (map days_in_year [y..<1900])))
     + int (sum_list (map (days_in_month y) [1..<m])) + int d - 1"

definition spec_elapsed_seconds :: "datetime \<Rightarrow> int" where
  "spec_elapsed_seconds dt =
     86400 * spec_days_since_1900 (year dt) (month dt) (day dt)
       + 3600 * int (hour dt) + 60 * int (minute dt) + int (second dt)"

text \<open>
  What the code looks for instead: a run of 15 characters, each a digit or \<open>T\<close>,
  starting at position \<open>i\<close> of the text.
\<close>

definition run_at :: "string \<Rightarrow> nat \<Rightarrow> bool" where
  "run_at s i \<longleftrightarrow> i + 15 \<le> length s \<and> list_all token_char (take 15 (drop i s))"

text \<open>The text that \<open>sep.join(parts)\<close> builds, to state what \<open>split\<close> returns.\<close>

fun py_join :: "char \<Rightarrow> string list \<Rightarrow> string" where
  "py_join sep [] = []"
| "py_join sep [w] = w"
| "py_join sep (w # v # ws) = w @ sep # py_join sep (v # ws)"

text \<open>
  The filter the specification describes for find_datasets: a file is selected when its
  metadata satisfies every constraint.
\<close>

fun satisfies :: "(string \<rightharpoonup> pyval) \<Rightarrow> string \<times> kwarg \<Rightarrow> bool" where
  "satisfies m (key, Value x) = (m key = Some x)"
| "satisfies m (key, Options vals) = (case m key of None \<Rightarrow> False | Some v \<Rightarrow> v \<in> set vals)"

definition spec_find_datasets ::
  "(string \<Rightarrow> string list) \<Rightarrow> (string \<Rightarrow> captures option) \<Rightarrow> string \<Rightarrow> (string \<times> kwarg) list
     \<Rightarrow> string list" where
  "spec_find_datasets finder pattern directory kwargs =
     filter (\<lambda>file. case parse_datasetname pattern file False of
                      Inr (Some m) \<Rightarrow> list_all (satisfies m) kwargs
                    | _ \<Rightarrow> False)
       (finder directory)"

subsection \<open>Notions used in the proofs about strptime\<close>

text \<open>What the expressions of the directives accept as a text of two characters.\<close>

definition month_text :: "char \<Rightarrow> char \<Rightarrow> bool" where
  "month_text a b \<longleftrightarrow> a = CHR ''1'' \<and> b \<in> set ''012'' \<or> a = CHR ''0'' \<and> b \<in> set nonzero"

definition day_text :: "char \<Rightarrow> char \<Rightarrow> bool" where
  "day_text a b \<longleftrightarrow> a = CHR ''3'' \<and> b \<in> set ''01'' \<or> a \<in> set ''12'' \<and> b \<in> set digits
     \<or> a = CHR ''0'' \<and> b \<in> set nonzero"

definition hour_text :: "char \<Rightarrow> char \<Rightarrow> bool" where
  "hour_text a b \<longleftrightarrow> a = CHR ''2'' \<and> b \<in> set ''0123'' \<or> a \<in> set ''01'' \<and> b \<in> set digits"

definition minute_text :: "char \<Rightarrow> char \<Rightarrow> bool" where
  "minute_text a b \<longleftrightarrow> a \<in> set ''012345'' \<and> b \<in> set digits"

definition second_text :: "char \<Rightarrow> char \<Rightarrow> bool" where
  "second_text a b \<longleftrightarrow> a = CHR ''6'' \<and> b \<in> set ''01'' \<or> a \<in> set ''012345'' \<and> b \<in> set digits"



text \<open>A group accepts a text when one of its alternatives matches the whole of it.\<close>

definition accepts :: "alternative list \<Rightarrow> string \<Rightarrow> bool" where
  "accepts g cap \<longleftrightarrow> (\<exists>a\<in>set g. length cap = length a \<and> match_alt a cap)"

section \<open>Properties of groupbyTime\<close>

lemma scan_step_snoc:
  "scan_step f t (bs @ [g]) x =
     (if close_in_time f t (last g) x then bs @ [g @ [x]] else bs @ [g, [x]])"
  by (simp add: scan_step_def)

text \<open>
  The loop keeps three facts about \<open>groups\<close>: no group is empty and the groups in order
  hold the items scanned so far; neighbours inside a group are close in time; the last
  item of a group and the first of the next are not.
\<close>

lemma scan_invariant:
  assumes "g \<noteq> []"
    and "\<forall>h\<in>set bs. h \<noteq> [] \<and> successively (close_in_time f t) h"
    and "successively (close_in_time f t) g"
    and "successively (\<lambda>a b. \<not> close_in_time f t (last a) (hd b)) (bs @ [g])"
  shows "foldl (scan_step f t) (bs @ [g]) rest \<noteq> []
     \<and> concat (foldl (scan_step f t) (bs @ [g]) rest) = concat bs @ g @ rest
     \<and> (\<forall>h\<in>set (foldl (scan_step f t) (bs @ [g]) rest). h \<noteq> [] \<and> successively (close_in_time f t) h)
     \<and> successively (\<lambda>a b. \<not> close_in_time f t (last a) (hd b)) (foldl (scan_step f t) (bs @ [g]) rest)"
  using assms
proof (induction rest arbitrary: bs g)
  case Nil
  then show ?case by simp
next
  case (Cons x rest)
  show ?case
  proof (cases "close_in_time f t (last g) x")
    case True
    have step: "scan_step f t (bs @ [g]) x = bs @ [g @ [x]]"
      using True by (simp add: scan_step_snoc)
    have a1: "g @ [x] \<noteq> []" by simp
    have a3: "successively (close_in_time f t) (g @ [x])"
      using Cons.prems(1,3) True by (simp add: successively_append_iff)
    have a4: "successively (\<lambda>a b. \<not> close_in_time f t (last a) (hd b)) (bs @ [g @ [x]])"
      using Cons.prems(1,4) by (simp add: successively_append_iff)
    from Cons.IH[OF a1 Cons.prems(2) a3 a4] show ?thesis
      by (simp add: step)
  next
    case False
    have step: "scan_step f t (bs @ [g]) x = (bs @ [g]) @ [[x]]"
      using False by (simp add: scan_step_snoc)
    have a1: "[x] \<noteq> []" by simp
    have a2: "\<forall>h\<in>set (bs @ [g]). h \<noteq> [] \<and> successively (close_in_time f t) h"
      using Cons.prems(1,2,3) by simp
    have a3: "successively (close_in_time f t) [x]" by simp
    have a4: "successively (\<lambda>a b. \<not> close_in_time f t (last a) (hd b)) ((bs @ [g]) @ [[x]])"
      using Cons.prems(4) False by (simp add: successively_append_iff)
    from Cons.IH[OF a1 a2 a3 a4] show ?thesis
      by (simp add: step)
  qed
qed

lemma increasing_in_group:
  fixes f :: "'a \<Rightarrow> 't::linordered_idom"
  shows "successively (close_in_time f t) g \<Longrightarrow> sorted (map f g) \<Longrightarrow> sorted_wrt (\<lambda>a b. f a < f b) g"
proof (induction g rule: induct_list012)
  case (3 x y zs)
  have xy: "f x < f y" using 3(3,4) by (auto simp: close_in_time_def)
  have "sorted_wrt (\<lambda>a b. f a < f b) (y # zs)" using 3 by simp
  moreover have "\<forall>z\<in>set (y # zs). f x < f z"
    using xy 3(4) by fastforce
  ultimately show ?case by simp
qed simp_all

lemma distinct_times_in_group:
  fixes f :: "'a \<Rightarrow> 't::linordered_idom"
  assumes "successively (close_in_time f t) g" "sorted (map f g)"
  shows "distinct (map f g)"
proof -
  have "sorted_wrt (\<lambda>a b. f a < f b) g" using assms by (rule increasing_in_group)
  then have "sorted_wrt (<) (map f g)" by (simp add: sorted_wrt_map)
  then show ?thesis using strict_sorted_iff by blast
qed

lemma sorted_part_of_concat:
  "sorted (map f (concat gs)) \<Longrightarrow> g \<in> set gs \<Longrightarrow> sorted (map f g)"
  by (induction gs) (auto simp: sorted_append)

lemma members_unwrap: "g \<noteq> [] \<Longrightarrow> members (unwrap g) = g"
  by (cases g) (auto simp: unwrap_def)

lemma concat_members_unwrap:
  "\<forall>g\<in>set gs. g \<noteq> [] \<Longrightarrow> concat (map members (map unwrap gs)) = concat gs"
  by (induction gs) (simp_all add: members_unwrap)

lemma groupbyTime_groups:
  assumes "images \<noteq> []"
  shows "\<exists>groups. groupbyTime images (function :: 'a \<Rightarrow> 't::linordered_idom) time = Inr (map unwrap groups)
      \<and> concat groups = sort_key function images
      \<and> (\<forall>g\<in>set groups. g \<noteq> [] \<and> successively (close_in_time function time) g)
      \<and> successively (\<lambda>g h. \<not> close_in_time function time (last g) (hd h)) groups"
proof -
  obtain first rest where s: "sort_key function images = first # rest"
  proof (cases "sort_key function images")
    case Nil
    then have "length images = 0" by (metis length_sort list.size(3))
    with assms show ?thesis by simp
  qed blast
  let ?gs = "foldl (scan_step function time) ([] @ [[first]]) rest"
  have inv: "?gs \<noteq> [] \<and> concat ?gs = concat [] @ [first] @ rest
     \<and> (\<forall>h\<in>set ?gs. h \<noteq> [] \<and> successively (close_in_time function time) h)
     \<and> successively (\<lambda>a b. \<not> close_in_time function time (last a) (hd b)) ?gs"
    by (rule scan_invariant) simp_all
  have "groupbyTime images function time = Inr (map unwrap ?gs)"
    by (simp add: groupbyTime_def s)
  with inv s show ?thesis by (intro exI[of _ ?gs]) simp
qed

lemma sort_key_tie_order:
  fixes f :: "'a \<Rightarrow> 'k::linorder"
  assumes "mset ys = mset xs"
    and "\<forall>k. filter (\<lambda>x. f x = k) ys = filter (\<lambda>x. f x = k) xs"
  shows "sort_key f ys = sort_key f xs"
proof (rule properties_for_sort_key)
  show "mset (sort_key f xs) = mset ys" using assms(1) by simp
  show "sorted (map f (sort_key f xs))" by simp
  fix k assume "k \<in> set (sort_key f xs)"
  have "filter (\<lambda>x. f k = f x) (sort_key f xs) = filter (\<lambda>x. f x = f k) (sort_key f xs)"
    by (rule filter_cong) auto
  also have "\<dots> = filter (\<lambda>x. f x = f k) xs" by (rule sort_key_stable)
  also have "\<dots> = filter (\<lambda>x. f x = f k) ys" using assms(2) by simp
  also have "\<dots> = filter (\<lambda>x. f k = f x) ys" by (rule filter_cong) auto
  finally show "filter (\<lambda>x. f k = f x) (sort_key f xs) = filter (\<lambda>x. f k = f x) ys" .
qed

text \<open>
  C9. On the empty input list groupbyTime raises IndexError (the access to the first
  element of the sorted copy) and returns nothing.
\<close>

theorem groupbyTime_empty: "groupbyTime [] function time = Inl IndexError"
  by (simp add: groupbyTime_def)

text \<open>
  C5. On a non-empty list groupbyTime returns the groups of the list sorted by time
  (stable), cut exactly where the scan says: inside a group every item follows its
  predecessor by more than zero and at most \<open>time\<close>; the first item of a group does not
  follow the last item of the group before in that way. Hence no two members of a group
  have the same time value. A group of one member is returned as the bare item, any other
  as a list.
\<close>

theorem groupbyTime_scan:
  assumes "images \<noteq> []"
  shows "\<exists>groups.
       groupbyTime images (function :: 'a \<Rightarrow> 't::linordered_idom) time
         = Inr (map (\<lambda>g. if length g = 1 then Item (hd g) else Items g) groups)
     \<and> concat groups = sort_key function images
     \<and> (\<forall>g\<in>set groups. g \<noteq> [] \<and> successively (close_in_time function time) g)
     \<and> successively (\<lambda>g h. \<not> close_in_time function time (last g) (hd h)) groups
     \<and> (\<forall>g\<in>set groups. distinct (map function g))"
proof -
  from groupbyTime_groups[OF assms, of "function" "time"]
  obtain groups where g: "groupbyTime images function time = Inr (map unwrap groups)"
      "concat groups = sort_key function images"
      "\<forall>g\<in>set groups. g \<noteq> [] \<and> successively (close_in_time function time) g"
      "successively (\<lambda>g h. \<not> close_in_time function time (last g) (hd h)) groups"
    by blast
  have u: "map unwrap groups = map (\<lambda>g. if length g = 1 then Item (hd g) else Items g) groups"
    by (simp add: unwrap_def)
  have "sorted (map function (concat groups))" by (simp add: g(2))
  then have "\<forall>g\<in>set groups. sorted (map function g)"
    using sorted_part_of_concat by blast
  then have "\<forall>g\<in>set groups. distinct (map function g)"
    using g(3) distinct_times_in_group by blast
  with g u show ?thesis by (intro exI[of _ groups]) simp
qed

theorem groupbyTime_scan_witness:
  "[(10::int, ''f2''), (3610, ''f3''), (0, ''f1'')] \<noteq> []
   \<and> groupbyTime [(10::int, ''f2''), (3610, ''f3''), (0, ''f1'')] fst 60
       = Inr [Items [(0, ''f1''), (10, ''f2'')], Item (3610, ''f3'')]
   \<and> (\<exists>groups.
       groupbyTime [(10::int, ''f2''), (3610, ''f3''), (0, ''f1'')] fst 60
         = Inr (map (\<lambda>g. if length g = 1 then Item (hd g) else Items g) groups)
     \<and> concat groups = sort_key fst [(10::int, ''f2''), (3610, ''f3''), (0, ''f1'')]
     \<and> (\<forall>g\<in>set groups. g \<noteq> [] \<and> successively (close_in_time fst 60) g)
     \<and> successively (\<lambda>g h. \<not> close_in_time fst 60 (last g) (hd h)) groups
     \<and> (\<forall>g\<in>set groups. distinct (map fst g)))"
proof -
  have ne: "[(10::int, ''f2''), (3610, ''f3''), (0, ''f1'')] \<noteq> []" by simp
  have ev: "groupbyTime [(10::int, ''f2''), (3610, ''f3''), (0, ''f1'')] fst 60
       = Inr [Items [(0, ''f1''), (10, ''f2'')], Item (3610, ''f3'')]"
    by (simp add: groupbyTime_def scan_step_def close_in_time_def unwrap_def)
  show ?thesis using ne ev groupbyTime_scan[OF ne, of fst 60] by blast
qed

text \<open>
  C10. On a non-empty list the members of the returned entries, concatenated in order,
  are the input sorted by time: every input item is in exactly one group.
\<close>

theorem groupbyTime_partition:
  assumes "images \<noteq> []"
  shows "\<exists>result. groupbyTime images (function :: 'a \<Rightarrow> 't::linordered_idom) time = Inr result
     \<and> concat (map members result) = sort_key function images
     \<and> mset (concat (map members result)) = mset images"
proof -
  from groupbyTime_groups[OF assms, of "function" "time"]
  obtain groups where g: "groupbyTime images function time = Inr (map unwrap groups)"
      "concat groups = sort_key function images"
      "\<forall>g\<in>set groups. g \<noteq> [] \<and> successively (close_in_time function time) g"
    by blast
  have c: "concat (map members (map unwrap groups)) = sort_key function images"
    using g(2,3) by (simp add: concat_members_unwrap del: map_map)
  then have "mset (concat (map members (map unwrap groups))) = mset images"
    by (simp del: map_map)
  with g(1) c show ?thesis by blast
qed

theorem groupbyTime_partition_witness:
  "[(5::int, ''a''), (5, ''b''), (2, ''c'')] \<noteq> []
   \<and> (\<exists>result. groupbyTime [(5::int, ''a''), (5, ''b''), (2, ''c'')] fst 60 = Inr result
     \<and> concat (map members result) = sort_key fst [(5::int, ''a''), (5, ''b''), (2, ''c'')]
     \<and> mset (concat (map members result)) = mset [(5::int, ''a''), (5, ''b''), (2, ''c'')])"
proof -
  have ne: "[(5::int, ''a''), (5, ''b''), (2, ''c'')] \<noteq> []" by simp
  show ?thesis using ne groupbyTime_partition[OF ne, of fst 60] by blast
qed

text \<open>
  C4, as stated: grouping any permutation of a list gives the same result. It fails for
  two different items with the same time value: the stable sort keeps them in input order.
\<close>

theorem groupbyTime_order_counterexample:
  "mset [(0::int, ''b''), (0, ''a'')] = mset [(0, ''a''), (0, ''b'')]
   \<and> groupbyTime [(0::int, ''b''), (0, ''a'')] fst 60 \<noteq> groupbyTime [(0, ''a''), (0, ''b'')] fst 60"
  by (simp add: groupbyTime_def scan_step_def close_in_time_def unwrap_def)

text \<open>
  C4, amended: two lists with the same items give the same result when the items that
  share a time value stand in the same order in both; so any permutation does when
  different items have different time values.
\<close>

theorem groupbyTime_tie_order:
  assumes "mset ys = mset xs"
    and "\<forall>k. filter (\<lambda>x. function x = k) ys = filter (\<lambda>x. function x = k) xs"
  shows "groupbyTime ys (function :: 'a \<Rightarrow> 't::linordered_idom) time = groupbyTime xs function time"
  using sort_key_tie_order[OF assms] by (simp add: groupbyTime_def)

theorem groupbyTime_tie_order_witness:
  "mset [(1::int, ''b''), (3, ''a''), (1, ''c'')] = mset [(3, ''a''), (1, ''b''), (1, ''c'')]
   \<and> (\<forall>k. filter (\<lambda>x. fst x = k) [(1::int, ''b''), (3, ''a''), (1, ''c'')]
          = filter (\<lambda>x. fst x = k) [(3, ''a''), (1, ''b''), (1, ''c'')])
   \<and> groupbyTime [(1::int, ''b''), (3, ''a''), (1, ''c'')] fst 2
       = groupbyTime [(3, ''a''), (1, ''b''), (1, ''c'')] fst 2"
proof -
  have m: "mset [(1::int, ''b''), (3, ''a''), (1, ''c'')] = mset [(3, ''a''), (1, ''b''), (1, ''c'')]"
    by simp
  have t: "\<forall>k. filter (\<lambda>x. fst x = k) [(1::int, ''b''), (3, ''a''), (1, ''c'')]
          = filter (\<lambda>x. fst x = k) [(3, ''a''), (1, ''b''), (1, ''c'')]"
    by simp
  show ?thesis using m t groupbyTime_tie_order[OF m t, of 2] by blast
qed

section \<open>Properties of parse_datasetname\<close>

lemma split_not_Nil: "split sep s \<noteq> []"
  by (induction s) (auto split: list.splits)

lemma join_split: "py_join sep (split sep s) = s"
proof (induction s)
  case Nil
  then show ?case by simp
next
  case (Cons c cs)
  obtain w ws where sp: "split sep cs = w # ws"
    using split_not_Nil[of sep cs] by (cases "split sep cs") auto
  show ?case
  proof (cases "c = sep")
    case True
    with Cons sp show ?thesis by simp
  next
    case False
    with Cons sp show ?thesis by (cases ws) auto
  qed
qed

lemma split_no_sep: "w \<in> set (split sep s) \<Longrightarrow> sep \<notin> set w"
proof (induction s arbitrary: w)
  case Nil
  then show ?case by simp
next
  case (Cons c cs)
  obtain v vs where sp: "split sep cs = v # vs"
    using split_not_Nil[of sep cs] by (cases "split sep cs") auto
  show ?case
  proof (cases "c = sep")
    case True
    with Cons show ?thesis by auto
  next
    case False
    have v: "sep \<notin> set v" and vs: "\<forall>u\<in>set vs. sep \<notin> set u"
      using Cons.IH sp by auto
    from Cons.prems False sp have "w = c # v \<or> w \<in> set vs" by simp
    with v vs False show ?thesis by auto
  qed
qed

lemma groupdict_lookup:
  "groupdict g ''sensor'' = Some (capture_value (sensor g))"
  "groupdict g ''acquisition_mode'' = Some (capture_value (acquisition_mode g))"
  "groupdict g ''orbit'' = Some (capture_value (orbit g))"
  "groupdict g ''start'' = Some (capture_value (start g))"
  "groupdict g ''extensions'' = Some (capture_value (extensions g))"
  "groupdict g ''polarization'' = Some (capture_value (polarization g))"
  "groupdict g ''proc_steps'' = Some (capture_value (proc_steps g))"
  by (simp_all add: groupdict_def)

lemma dom_groupdict: "dom (groupdict g) = set metadata_keys"
  by (simp add: groupdict_def metadata_keys_def dom_map_of_conv_image_fst)

lemma dom_update_present: "dom m = K \<Longrightarrow> k \<in> K \<Longrightarrow> dom (m(k \<mapsto> v)) = K"
  by auto

lemma keys_present:
  "''extensions'' \<in> set metadata_keys" "''proc_steps'' \<in> set metadata_keys"
  "''start'' \<in> set metadata_keys"
  by (simp_all add: metadata_keys_def)

lemma dom_parse_datasetname:
  assumes "parse_datasetname pattern name parse_date = Inr (Some m)"
  shows "dom m = set metadata_keys"
proof -
  obtain g where g: "pattern name = Some g"
    using assms by (cases "pattern name") (simp_all add: parse_datasetname_def)
  obtain steps where s: "proc_steps g = Some steps"
    using assms g by (cases "proc_steps g") (simp_all add: parse_datasetname_def Let_def)
  define out1 where "out1 = (if extensions g = Some [] then (groupdict g)(''extensions'' \<mapsto> PNone) else groupdict g)"
  define out2 where "out2 = (if length steps > 0
       then out1(''proc_steps'' \<mapsto> PList (split CHR ''_'' steps))
       else out1(''proc_steps'' \<mapsto> PNone))"
  have d1: "dom out1 = set metadata_keys"
    using dom_groupdict[of g] dom_update_present[OF dom_groupdict keys_present(1), of g PNone]
    unfolding out1_def by (cases "extensions g = Some []") presburger+
  have d2: "dom out2 = set metadata_keys"
    using dom_update_present[OF d1 keys_present(2)] unfolding out2_def by presburger
  have p: "parse_datasetname pattern name parse_date =
      (if parse_date
       then (case start g of None \<Rightarrow> Inl TypeError
             | Some text \<Rightarrow> (case strptime text of Inl e \<Rightarrow> Inl e
                              | Inr dt \<Rightarrow> Inr (Some (out2(''start'' \<mapsto> PDate dt)))))
       else Inr (Some out2))"
    by (simp only: parse_datasetname_def Let_def g s option.case out1_def out2_def)
  show ?thesis
  proof (cases parse_date)
    case False
    with p assms have "m = out2" by simp
    with d2 show ?thesis by simp
  next
    case True
    with p assms obtain dt where "m = out2(''start'' \<mapsto> PDate dt)"
      by (auto split: option.splits sum.splits)
    then show ?thesis by (simp only: dom_update_present[OF d2 keys_present(3)])
  qed
qed

lemma parse_datasetname_plain:
  assumes "pattern name = Some g" and "proc_steps g = Some steps"
  shows "\<exists>m. parse_datasetname pattern name False = Inr (Some m)"
  using assms by (simp add: parse_datasetname_def Let_def)

text \<open>
  C7. A name that the product pattern does not match gives the absent result, without an
  exception, whatever the flag \<open>parse_date\<close> is.
\<close>

theorem parse_datasetname_no_match:
  "pattern name = None \<Longrightarrow> parse_datasetname pattern name parse_date = Inr None"
  by (simp add: parse_datasetname_def)

theorem parse_datasetname_no_match_witness:
  "sample_pattern ''random.txt'' = None
   \<and> parse_datasetname sample_pattern ''random.txt'' False = Inr None
   \<and> parse_datasetname sample_pattern ''random.txt'' True = Inr None"
proof -
  have h: "sample_pattern ''random.txt'' = None" by (simp add: sample_pattern_def)
  show ?thesis
    using h parse_datasetname_no_match[of sample_pattern "''random.txt''" False]
      parse_datasetname_no_match[of sample_pattern "''random.txt''" True]
    by simp
qed

text \<open>
  C8, as stated: on every name that the product pattern matches, parse_datasetname
  post-processes the captures, and with \<open>parse_date\<close> set the \<open>start\<close> capture
  becomes a datetime. It fails on a matched name whose \<open>start\<close> capture is no calendar
  date (the 31st of February): with \<open>parse_date\<close> set strptime raises ValueError and no
  mapping is returned.
\<close>

theorem parse_datasetname_postprocess_counterexample:
  "sample_pattern ''S1A__EW___A_20150231T000000_HH_.tif''
     = Some (sample_product ''S1A'' ''EW'' ''A'' ''20150231T000000'' [] ''HH'' [])
   \<and> parse_datasetname sample_pattern ''S1A__EW___A_20150231T000000_HH_.tif'' True
     = Inl ValueError"
proof -
  have p: "sample_pattern ''S1A__EW___A_20150231T000000_HH_.tif''
     = Some (sample_product ''S1A'' ''EW'' ''A'' ''20150231T000000'' [] ''HH'' [])"
    by (simp add: sample_pattern_def)
  have e: "strptime ''20150231T000000'' = Inl ValueError"
    by code_simp
  have "parse_datasetname sample_pattern ''S1A__EW___A_20150231T000000_HH_.tif'' True
     = Inl ValueError"
    by (simp add: parse_datasetname_def Let_def p e sample_product_def)
  with p show ?thesis by simp
qed

text \<open>
  C8, amended. On a name that matches, with text captured for \<open>proc_steps\<close> and, when
  \<open>parse_date\<close> is set, with a \<open>start\<close> capture that strptime reads in the format
  \<open>YYYYMMDDThhmmss\<close>, parse_datasetname returns a mapping in which: an empty
  \<open>extensions\<close> capture becomes \<open>None\<close>; a non-empty \<open>proc_steps\<close> capture becomes the
  list of its parts between the underscores (joined by underscores they give the capture
  back, and no part holds an underscore), an empty one becomes \<open>None\<close>; \<open>start\<close> is the
  datetime that strptime reads from the capture when \<open>parse_date\<close> is set, and the
  capture as it is otherwise; the other four entries are the captures.
\<close>

theorem parse_datasetname_postprocess:
  assumes "pattern name = Some g" and "proc_steps g = Some steps"
    and "parse_date \<longrightarrow> start g = Some text \<and> strptime text = Inr dt"
  shows "\<exists>out. parse_datasetname pattern name parse_date = Inr (Some out)
     \<and> out ''extensions'' = Some (if extensions g = Some [] then PNone else capture_value (extensions g))
     \<and> out ''proc_steps'' = Some (if steps = [] then PNone else PList (split CHR ''_'' steps))
     \<and> out ''start'' = Some (if parse_date then PDate dt else capture_value (start g))
     \<and> out ''sensor'' = Some (capture_value (sensor g))
     \<and> out ''acquisition_mode'' = Some (capture_value (acquisition_mode g))
     \<and> out ''orbit'' = Some (capture_value (orbit g))
     \<and> out ''polarization'' = Some (capture_value (polarization g))
     \<and> dom out = set metadata_keys
     \<and> py_join CHR ''_'' (split CHR ''_'' steps) = steps
     \<and> (\<forall>tag\<in>set (split CHR ''_'' steps). CHR ''_'' \<notin> set tag)"
proof -
  let ?out2 = "(if extensions g = Some [] then (groupdict g)(''extensions'' \<mapsto> PNone) else groupdict g)
      (''proc_steps'' \<mapsto> (if steps = [] then PNone else PList (split CHR ''_'' steps)))"
  let ?out = "if parse_date then ?out2(''start'' \<mapsto> PDate dt) else ?out2"
  have out: "parse_datasetname pattern name parse_date = Inr (Some ?out)"
    using assms by (simp add: parse_datasetname_def Let_def)
  have ex: "?out ''extensions'' = Some (if extensions g = Some [] then PNone else capture_value (extensions g))"
    by (simp add: groupdict_lookup)
  have ps: "?out ''proc_steps'' = Some (if steps = [] then PNone else PList (split CHR ''_'' steps))"
    by simp
  have st: "?out ''start'' = Some (if parse_date then PDate dt else capture_value (start g))"
    by (simp add: groupdict_lookup)
  have others: "?out ''sensor'' = Some (capture_value (sensor g))"
    "?out ''acquisition_mode'' = Some (capture_value (acquisition_mode g))"
    "?out ''orbit'' = Some (capture_value (orbit g))"
    "?out ''polarization'' = Some (capture_value (polarization g))"
    by (simp_all add: groupdict_lookup)
  have d: "dom ?out = set metadata_keys" using out by (rule dom_parse_datasetname)
  have sp: "\<forall>tag\<in>set (split CHR ''_'' steps). CHR ''_'' \<notin> set tag"
    using split_no_sep by blast
  have js: "py_join CHR ''_'' (split CHR ''_'' steps) = steps" by (rule join_split)
  show ?thesis
    apply (rule exI[of _ ?out])
    using out ex ps st others d sp js by blast
qed

theorem parse_datasetname_postprocess_witness:
  "sample_pattern ''S1A__IW___A_20150309T173017_VV_grd_mli_geo_norm_db.tif''
     = Some (sample_product ''S1A'' ''IW'' ''A'' ''20150309T173017'' [] ''VV'' ''grd_mli_geo_norm_db'')
   \<and> proc_steps (sample_product ''S1A'' ''IW'' ''A'' ''20150309T173017'' [] ''VV'' ''grd_mli_geo_norm_db'')
     = Some ''grd_mli_geo_norm_db''
   \<and> start (sample_product ''S1A'' ''IW'' ''A'' ''20150309T173017'' [] ''VV'' ''grd_mli_geo_norm_db'')
     = Some ''20150309T173017''
   \<and> strptime ''20150309T173017''
         = Inr \<lparr>year = 2015, month = 3, day = 9, hour = 17, minute = 30, second = 17\<rparr>
   \<and> (\<exists>out. parse_datasetname sample_pattern
                ''S1A__IW___A_20150309T173017_VV_grd_mli_geo_norm_db.tif'' True = Inr (Some out)
         \<and> out ''extensions'' = Some PNone
         \<and> out ''proc_steps'' = Some (PList [''grd'', ''mli'', ''geo'', ''norm'', ''db''])
         \<and> out ''start''
             = Some (PDate \<lparr>year = 2015, month = 3, day = 9, hour = 17, minute = 30, second = 17\<rparr>)
         \<and> out ''sensor'' = Some (PStr ''S1A'')
         \<and> out ''acquisition_mode'' = Some (PStr ''IW'')
         \<and> out ''orbit'' = Some (PStr ''A'')
         \<and> out ''polarization'' = Some (PStr ''VV''))"
proof -
  let ?name = "''S1A__IW___A_20150309T173017_VV_grd_mli_geo_norm_db.tif''"
  let ?g = "sample_product ''S1A'' ''IW'' ''A'' ''20150309T173017'' [] ''VV'' ''grd_mli_geo_norm_db''"
  let ?dt = "\<lparr>year = 2015, month = 3, day = 9, hour = 17, minute = 30, second = 17\<rparr>"
  have p: "sample_pattern ?name = Some ?g"
    by (simp add: sample_pattern_def)
  have s: "proc_steps ?g = Some ''grd_mli_geo_norm_db''"
    by (simp add: sample_product_def)
  have t: "start ?g = Some ''20150309T173017''"
    by (simp add: sample_product_def)
  have d0: "strptime ''20150309T173017'' = Inr ?dt"
    by code_simp
  with t have d: "True \<longrightarrow> start ?g = Some ''20150309T173017''
      \<and> strptime ''20150309T173017'' = Inr ?dt"
    by simp
  have sp: "split CHR ''_'' ''grd_mli_geo_norm_db'' = [''grd'', ''mli'', ''geo'', ''norm'', ''db'']"
    by code_simp
  from parse_datasetname_postprocess[of sample_pattern ?name ?g "''grd_mli_geo_norm_db''"
      True "''20150309T173017''" ?dt, OF p s d]
  obtain out where out: "parse_datasetname sample_pattern ?name True = Inr (Some out)"
      "out ''extensions'' = Some (if extensions ?g = Some [] then PNone else capture_value (extensions ?g))"
      "out ''proc_steps'' = Some (if ''grd_mli_geo_norm_db'' = [] then PNone
                                  else PList (split CHR ''_'' ''grd_mli_geo_norm_db''))"
      "out ''start'' = Some (if True then PDate ?dt else capture_value (start ?g))"
      "out ''sensor'' = Some (capture_value (sensor ?g))"
      "out ''acquisition_mode'' = Some (capture_value (acquisition_mode ?g))"
      "out ''orbit'' = Some (capture_value (orbit ?g))"
      "out ''polarization'' = Some (capture_value (polarization ?g))"
    by blast
  have "out ''extensions'' = Some PNone"
    "out ''proc_steps'' = Some (PList [''grd'', ''mli'', ''geo'', ''norm'', ''db''])"
    "out ''start'' = Some (PDate ?dt)"
    "out ''sensor'' = Some (PStr ''S1A'')"
    "out ''acquisition_mode'' = Some (PStr ''IW'')"
    "out ''orbit'' = Some (PStr ''A'')"
    "out ''polarization'' = Some (PStr ''VV'')"
    using out(2-8) sp by (simp_all add: sample_product_def)
  with p s t d0 out(1) show ?thesis by blast
qed

section \<open>Properties of find_datasets\<close>

lemma check_kwargs_unknown_key:
  "\<exists>(key, val)\<in>set kwargs. key \<notin> dom m \<Longrightarrow> check_kwargs (Some m) kwargs match = Inl KeyError"
proof (induction kwargs arbitrary: match)
  case Nil
  then show ?case by simp
next
  case (Cons kv kwargs)
  obtain key val where kv: "kv = (key, val)" by (cases kv)
  show ?case
  proof (cases "m key")
    case None
    then show ?thesis by (simp add: kv)
  next
    case (Some v)
    then have "\<exists>(key, val)\<in>set kwargs. key \<notin> dom m"
      using Cons.prems kv by auto
    from Cons.IH[OF this] Some show ?thesis by (simp add: kv)
  qed
qed

lemma check_kwargs_last:
  "kwargs \<noteq> [] \<Longrightarrow> fst ` set kwargs \<subseteq> dom m \<Longrightarrow>
     check_kwargs (Some m) kwargs match = Inr (satisfies m (last kwargs))"
proof (induction kwargs arbitrary: match)
  case Nil
  then show ?case by simp
next
  case (Cons kv kwargs)
  obtain key val where kv: "kv = (key, val)" by (cases kv)
  from Cons.prems(2) kv obtain v where v: "m key = Some v" by auto
  show ?case
  proof (cases "kwargs = []")
    case True
    with v kv show ?thesis by (cases val) auto
  next
    case False
    with Cons v kv show ?thesis by simp
  qed
qed

lemma select_files_key_error:
  assumes "parse_datasetname pattern file False = Inr (Some m)"
    and "\<exists>(key, val)\<in>set kwargs. key \<notin> dom m"
  shows "select_files pattern kwargs (file # files) selection = Inl KeyError"
  using assms check_kwargs_unknown_key[OF assms(2), of True] by simp

text \<open>
  C1. The specification selects the files whose metadata satisfies every constraint.
  The loop over the constraints overwrites \<open>match\<close> at each one, so the last
  constraint alone decides: with the constraints sensor in (S1A, S1B) and polarization
  VV, in this order, the file of sensor ERS2 and polarization VV is selected; in the
  other order the file of sensor S1B and polarization VH is.
\<close>

theorem find_datasets_last_constraint_decides:
  "find_datasets sample_finder sample_pattern ''path/to/files''
      [(''sensor'', Options [PStr ''S1A'', PStr ''S1B'']), (''polarization'', Value (PStr ''VV''))]
     = Inr [''S1A__IW___A_20150309T173017_VV_grd_mli_geo_norm_db.tif'',
            ''ERS2_IMP__D_19960229T101112_VV_geo.tif'']
   \<and> spec_find_datasets sample_finder sample_pattern ''path/to/files''
      [(''sensor'', Options [PStr ''S1A'', PStr ''S1B'']), (''polarization'', Value (PStr ''VV''))]
     = [''S1A__IW___A_20150309T173017_VV_grd_mli_geo_norm_db.tif'']
   \<and> find_datasets sample_finder sample_pattern ''path/to/files''
      [(''polarization'', Value (PStr ''VV'')), (''sensor'', Options [PStr ''S1A'', PStr ''S1B''])]
     = Inr [''S1A__IW___A_20150309T173017_VV_grd_mli_geo_norm_db.tif'',
            ''S1B__IW___D_20170102T050607_VH_grd_mli.tif'']"
  by code_simp

text \<open>
  C2, as stated: a constraint key outside the seven metadata keys makes the call fail
  with KeyError. It fails when the finder returns no file: the key is only looked up in
  the metadata of a file, and the call returns the empty list.
\<close>

theorem find_datasets_unknown_key_counterexample:
  "''bogus_key'' \<notin> set metadata_keys
   \<and> find_datasets sample_finder sample_pattern ''empty/dir'' [(''bogus_key'', Value (PStr ''x''))] = Inr []"
  by (simp add: metadata_keys_def find_datasets_def sample_finder_def)

text \<open>
  C2, amended: with a constraint key outside the seven metadata keys, the call fails with
  KeyError when the finder returns at least one file and the first one matches the
  product pattern with text captured for \<open>proc_steps\<close>; it returns the empty list when
  the finder returns no file.
\<close>

theorem find_datasets_unknown_key:
  assumes "\<exists>(key, val)\<in>set kwargs. key \<notin> set metadata_keys"
  shows "(finder directory = file # files \<and> pattern file = Some g \<and> proc_steps g = Some steps
            \<longrightarrow> find_datasets finder pattern directory kwargs = Inl KeyError)
       \<and> (finder directory = [] \<longrightarrow> find_datasets finder pattern directory kwargs = Inr [])"
proof (intro conjI impI)
  assume a: "finder directory = file # files \<and> pattern file = Some g \<and> proc_steps g = Some steps"
  then obtain m where m: "parse_datasetname pattern file False = Inr (Some m)"
    using parse_datasetname_plain by blast
  then have "dom m = set metadata_keys" by (rule dom_parse_datasetname)
  with assms have "\<exists>(key, val)\<in>set kwargs. key \<notin> dom m" by simp
  from select_files_key_error[OF m this] a
  show "find_datasets finder pattern directory kwargs = Inl KeyError"
    by (simp add: find_datasets_def)
next
  assume "finder directory = []"
  then show "find_datasets finder pattern directory kwargs = Inr []"
    by (simp add: find_datasets_def)
qed

theorem find_datasets_unknown_key_witness:
  "(\<exists>(key, val)\<in>set [(''polarization'', Value (PStr ''VV'')), (''bogus_key'', Value (PStr ''x''))].
       key \<notin> set metadata_keys)
   \<and> sample_finder ''path/to/files'' =
        ''S1A__IW___A_20150309T173017_VV_grd_mli_geo_norm_db.tif''
        # [''S1B__IW___D_20170102T050607_VH_grd_mli.tif'', ''ERS2_IMP__D_19960229T101112_VV_geo.tif'']
   \<and> sample_pattern ''S1A__IW___A_20150309T173017_VV_grd_mli_geo_norm_db.tif''
        = Some (sample_product ''S1A'' ''IW'' ''A'' ''20150309T173017'' [] ''VV'' ''grd_mli_geo_norm_db'')
   \<and> proc_steps (sample_product ''S1A'' ''IW'' ''A'' ''20150309T173017'' [] ''VV'' ''grd_mli_geo_norm_db'')
        = Some ''grd_mli_geo_norm_db''
   \<and> find_datasets sample_finder sample_pattern ''path/to/files''
        [(''polarization'', Value (PStr ''VV'')), (''bogus_key'', Value (PStr ''x''))] = Inl KeyError
   \<and> sample_finder ''empty/dir'' = []
   \<and> find_datasets sample_finder sample_pattern ''empty/dir''
        [(''polarization'', Value (PStr ''VV'')), (''bogus_key'', Value (PStr ''x''))] = Inr []"
proof -
  let ?kw = "[(''polarization'', Value (PStr ''VV'')), (''bogus_key'', Value (PStr ''x''))]"
  let ?g = "sample_product ''S1A'' ''IW'' ''A'' ''20150309T173017'' [] ''VV'' ''grd_mli_geo_norm_db''"
  have k: "\<exists>(key, val)\<in>set ?kw. key \<notin> set metadata_keys"
    by (simp add: metadata_keys_def)
  have f: "sample_finder ''path/to/files'' =
        ''S1A__IW___A_20150309T173017_VV_grd_mli_geo_norm_db.tif''
        # [''S1B__IW___D_20170102T050607_VH_grd_mli.tif'', ''ERS2_IMP__D_19960229T101112_VV_geo.tif'']"
    by (simp add: sample_finder_def)
  have p: "sample_pattern ''S1A__IW___A_20150309T173017_VV_grd_mli_geo_norm_db.tif'' = Some ?g"
    by (simp add: sample_pattern_def)
  have s: "proc_steps ?g = Some ''grd_mli_geo_norm_db''"
    by (simp add: sample_product_def)
  have e: "sample_finder ''empty/dir'' = []"
    by (simp add: sample_finder_def)
  show ?thesis
    using k f p s e
      find_datasets_unknown_key[OF k, of sample_finder "''path/to/files''" _ _ sample_pattern ?g "''grd_mli_geo_norm_db''"]
      find_datasets_unknown_key[OF k, of sample_finder "''empty/dir''"]
    by blast
qed

section \<open>Properties of strptime and seconds\<close>

subsection \<open>The characters of a token and their values\<close>

lemma digit_value_bound: "c \<in> set digits \<Longrightarrow> digit_value c \<le> 9"
  by (auto simp: digits_def digit_value_def)

lemma digit_not_blank: "c \<in> set digits \<Longrightarrow> c \<noteq> CHR '' ''"
  by (auto simp: digits_def)

lemma int_of_text2:
  "a \<in> set digits \<Longrightarrow> b \<in> set digits \<Longrightarrow> int_of_text [a, b] = 10 * digit_value a + digit_value b"
  by (simp add: int_of_text_def digit_not_blank)

lemma int_of_text4:
  "a \<in> set digits \<Longrightarrow> b \<in> set digits \<Longrightarrow> c \<in> set digits \<Longrightarrow> d \<in> set digits \<Longrightarrow>
     int_of_text [a, b, c, d]
       = 1000 * digit_value a + 100 * digit_value b + 10 * digit_value c + digit_value d"
  by (simp add: int_of_text_def digit_not_blank)

lemma digit_cases:
  "c \<in> set digits \<Longrightarrow>
     c = CHR ''0'' \<or> c = CHR ''1'' \<or> c = CHR ''2'' \<or> c = CHR ''3'' \<or> c = CHR ''4''
   \<or> c = CHR ''5'' \<or> c = CHR ''6'' \<or> c = CHR ''7'' \<or> c = CHR ''8'' \<or> c = CHR ''9''"
  by (simp add: digits_def)

lemma digit_values:
  "digit_value CHR ''0'' = 0" "digit_value CHR ''1'' = 1" "digit_value CHR ''2'' = 2"
  "digit_value CHR ''3'' = 3" "digit_value CHR ''4'' = 4" "digit_value CHR ''5'' = 5"
  "digit_value CHR ''6'' = 6" "digit_value CHR ''7'' = 7" "digit_value CHR ''8'' = 8"
  "digit_value CHR ''9'' = 9"
  by (simp_all add: digit_value_def)


lemma digit_class:
  assumes "c \<in> set digits"
  shows "c = CHR ''0'' \<longleftrightarrow> digit_value c = 0"
    and "c = CHR ''1'' \<longleftrightarrow> digit_value c = 1"
    and "c = CHR ''2'' \<longleftrightarrow> digit_value c = 2"
    and "c = CHR ''3'' \<longleftrightarrow> digit_value c = 3"
    and "c = CHR ''6'' \<longleftrightarrow> digit_value c = 6"
    and "c \<in> set ''01'' \<longleftrightarrow> digit_value c \<le> 1"
    and "c \<in> set ''012'' \<longleftrightarrow> digit_value c \<le> 2"
    and "c \<in> set ''0123'' \<longleftrightarrow> digit_value c \<le> 3"
    and "c \<in> set ''012345'' \<longleftrightarrow> digit_value c \<le> 5"
    and "c \<in> set ''12'' \<longleftrightarrow> 1 \<le> digit_value c \<and> digit_value c \<le> 2"
    and "c \<in> set nonzero \<longleftrightarrow> 1 \<le> digit_value c"
  using digit_cases[OF assms] by (elim disjE; simp add: digit_values nonzero_def)+


lemma month_text_of_value:
  assumes "a \<in> set digits" "b \<in> set digits"
    and "1 \<le> 10 * digit_value a + digit_value b" "10 * digit_value a + digit_value b \<le> 12"
  shows "month_text a b"
  unfolding month_text_def digit_class[OF assms(1)] digit_class[OF assms(2)]
  using assms(3,4) by arith

lemma day_text_of_value:
  assumes "a \<in> set digits" "b \<in> set digits"
    and "1 \<le> 10 * digit_value a + digit_value b" "10 * digit_value a + digit_value b \<le> 31"
  shows "day_text a b"
  unfolding day_text_def digit_class[OF assms(1)] digit_class[OF assms(2)]
  using assms(2-4) by simp arith

lemma hour_text_of_value:
  assumes "a \<in> set digits" "b \<in> set digits" and "10 * digit_value a + digit_value b < 24"
  shows "hour_text a b"
  unfolding hour_text_def digit_class[OF assms(1)] digit_class[OF assms(2)]
  using assms(2,3) by simp arith

lemma minute_text_of_value:
  assumes "a \<in> set digits" "b \<in> set digits" and "10 * digit_value a + digit_value b < 60"
  shows "minute_text a b"
  unfolding minute_text_def digit_class[OF assms(1)]
  using assms(2,3) by simp

lemma second_text_of_value:
  assumes "a \<in> set digits" "b \<in> set digits" and "10 * digit_value a + digit_value b < 60"
  shows "second_text a b"
  unfolding second_text_def digit_class[OF assms(1)] digit_class[OF assms(2)]
  using assms(2,3) by simp

subsection \<open>The format expression on a well-formed token\<close>

lemma match_S:
  "second_text s1 s2 \<Longrightarrow> match_groups [directive_S] [s1, s2] = Some ([[s1, s2]], [])"
  by (auto simp: second_text_def directive_S_def)

lemma match_MS:
  "minute_text n1 n2 \<Longrightarrow> second_text s1 s2 \<Longrightarrow>
     match_groups [directive_M, directive_S] [n1, n2, s1, s2] = Some ([[n1, n2], [s1, s2]], [])"
  by (simp add: minute_text_def directive_M_def match_S)

lemma match_HMS:
  "hour_text h1 h2 \<Longrightarrow> minute_text n1 n2 \<Longrightarrow> second_text s1 s2 \<Longrightarrow>
     match_groups [directive_H, directive_M, directive_S] [h1, h2, n1, n2, s1, s2]
       = Some ([[h1, h2], [n1, n2], [s1, s2]], [])"
  by (auto simp: hour_text_def directive_H_def match_MS)

lemma match_THMS:
  "hour_text h1 h2 \<Longrightarrow> minute_text n1 n2 \<Longrightarrow> second_text s1 s2 \<Longrightarrow>
     match_groups [literal_T, directive_H, directive_M, directive_S]
         [CHR ''T'', h1, h2, n1, n2, s1, s2]
       = Some ([''T'', [h1, h2], [n1, n2], [s1, s2]], [])"
  by (simp add: literal_T_def match_HMS)

lemma match_dTHMS:
  "day_text d1 d2 \<Longrightarrow> hour_text h1 h2 \<Longrightarrow> minute_text n1 n2 \<Longrightarrow> second_text s1 s2 \<Longrightarrow>
     match_groups [directive_d, literal_T, directive_H, directive_M, directive_S]
         [d1, d2, CHR ''T'', h1, h2, n1, n2, s1, s2]
       = Some ([[d1, d2], ''T'', [h1, h2], [n1, n2], [s1, s2]], [])"
  by (auto simp: day_text_def directive_d_def match_THMS)

lemma match_mdTHMS:
  "month_text m1 m2 \<Longrightarrow> day_text d1 d2 \<Longrightarrow> hour_text h1 h2 \<Longrightarrow> minute_text n1 n2 \<Longrightarrow>
   second_text s1 s2 \<Longrightarrow>
     match_groups [directive_m, directive_d, literal_T, directive_H, directive_M, directive_S]
         [m1, m2, d1, d2, CHR ''T'', h1, h2, n1, n2, s1, s2]
       = Some ([[m1, m2], [d1, d2], ''T'', [h1, h2], [n1, n2], [s1, s2]], [])"
  by (auto simp: month_text_def directive_m_def match_dTHMS)

lemma match_format:
  assumes "y1 \<in> set digits" "y2 \<in> set digits" "y3 \<in> set digits" "y4 \<in> set digits"
    and "month_text m1 m2" "day_text d1 d2" "hour_text h1 h2" "minute_text n1 n2" "second_text s1 s2"
  shows "match_groups format_regex
         [y1, y2, y3, y4, m1, m2, d1, d2, CHR ''T'', h1, h2, n1, n2, s1, s2]
       = Some ([[y1, y2, y3, y4], [m1, m2], [d1, d2], ''T'', [h1, h2], [n1, n2], [s1, s2]], [])"
  using assms(1-4) by (simp add: format_regex_def directive_Y_def match_mdTHMS[OF assms(5-9)])

subsection \<open>What a match of the format expression looks like\<close>

lemma match_alt_length: "match_alt a s \<Longrightarrow> length a \<le> length s"
  by (induction a s rule: match_alt.induct) auto

lemma match_alt_take: "match_alt a s \<Longrightarrow> match_alt a (take (length a) s)"
  by (induction a s rule: match_alt.induct) auto

lemma match_groups_sound:
  "match_groups gs s = Some (caps, rest) \<Longrightarrow> s = concat caps @ rest \<and> list_all2 accepts gs caps"
proof (induction gs s arbitrary: caps rest rule: match_groups.induct)
  case (1 s)
  then show ?case by simp
next
  case (2 gs s)
  then show ?case by simp
next
  case (3 a as gs s)
  show ?case
  proof (cases "match_alt a s \<and> match_groups gs (drop (length a) s) \<noteq> None")
    case True
    then obtain caps' rest' where c: "match_groups gs (drop (length a) s) = Some (caps', rest')"
      by auto
    with True "3.prems" have eq: "caps = take (length a) s # caps'" "rest = rest'"
      by auto
    from "3.IH"(1)[OF _ c] True
    have ih: "drop (length a) s = concat caps' @ rest'" "list_all2 accepts gs caps'"
      by auto
    have "accepts (a # as) (take (length a) s)"
      using True match_alt_length[of a s] match_alt_take[of a s] by (auto simp: accepts_def)
    moreover have "s = take (length a) s @ drop (length a) s" by simp
    ultimately show ?thesis using ih eq by (metis append.assoc concat.simps(2) list_all2_Cons)
  next
    case False
    then have m: "match_groups (as # gs) s = Some (caps, rest)"
      using "3.prems" by (auto split: option.splits if_splits)
    have r: "s = concat caps @ rest \<and> list_all2 accepts (as # gs) caps"
    proof (cases "match_alt a s")
      case True
      with False have "match_groups gs (drop (length a) s) = None" by blast
      from "3.IH"(2)[OF True this m] show ?thesis .
    next
      case no: False
      from "3.IH"(3)[OF no m] show ?thesis .
    qed
    then obtain c cs where cs: "caps = c # cs" "accepts as c" "list_all2 accepts gs cs"
      by (auto simp: list_all2_Cons1)
    then have "accepts (a # as) c" by (auto simp: accepts_def)
    with cs r show ?thesis by simp
  qed
qed

lemma length_1_conv: "length xs = Suc 0 \<longleftrightarrow> (\<exists>a. xs = [a])"
  by (cases xs) auto

lemma length_2_conv: "length xs = Suc (Suc 0) \<longleftrightarrow> (\<exists>a b. xs = [a, b])"
  by (cases xs) (auto simp: length_1_conv)

lemma length_4_conv: "length xs = Suc (Suc (Suc (Suc 0))) \<longleftrightarrow> (\<exists>a b c d. xs = [a, b, c, d])"
  by (cases xs) (auto simp: length_Suc_conv)

lemma accepts_Y:
  "accepts directive_Y cap \<Longrightarrow>
     \<exists>a b c d. cap = [a, b, c, d] \<and> a \<in> set digits \<and> b \<in> set digits \<and> c \<in> set digits \<and> d \<in> set digits"
  by (auto simp: accepts_def directive_Y_def length_4_conv)

lemma accepts_m:
  "accepts directive_m cap \<Longrightarrow>
     length cap \<le> 2 \<and> (length cap = 2 \<longrightarrow> (\<exists>a b. cap = [a, b] \<and> month_text a b))"
  by (auto simp: accepts_def directive_m_def month_text_def length_1_conv length_2_conv)

lemma accepts_d:
  "accepts directive_d cap \<Longrightarrow>
     length cap \<le> 2 \<and> (length cap = 2 \<longrightarrow> (\<exists>a b. cap = [a, b] \<and> (day_text a b \<or> a = CHR '' '')))"
  by (auto simp: accepts_def directive_d_def day_text_def length_1_conv length_2_conv)

lemma accepts_T:
  "accepts literal_T cap \<Longrightarrow> cap = ''T'' \<or> cap = ''t''"
  by (auto simp: accepts_def literal_T_def length_1_conv)

lemma accepts_H:
  "accepts directive_H cap \<Longrightarrow>
     length cap \<le> 2 \<and> (length cap = 2 \<longrightarrow> (\<exists>a b. cap = [a, b] \<and> hour_text a b))"
  by (auto simp: accepts_def directive_H_def hour_text_def length_1_conv length_2_conv)

lemma accepts_M:
  "accepts directive_M cap \<Longrightarrow>
     length cap \<le> 2 \<and> (length cap = 2 \<longrightarrow> (\<exists>a b. cap = [a, b] \<and> minute_text a b))"
  by (auto simp: accepts_def directive_M_def minute_text_def length_1_conv length_2_conv)

lemma accepts_S:
  "accepts directive_S cap \<Longrightarrow>
     length cap \<le> 2 \<and> (length cap = 2 \<longrightarrow> (\<exists>a b. cap = [a, b] \<and> second_text a b))"
  by (auto simp: accepts_def directive_S_def second_text_def length_1_conv length_2_conv)

lemma not_token_char: "\<not> token_char CHR '' ''" "\<not> token_char CHR ''t''"
  by (simp_all add: token_char_def)

lemma list_all2_seven:
  assumes "list_all2 P [g0, g1, g2, g3, g4, g5, g6] cs"
  obtains c0 c1 c2 c3 c4 c5 c6 where "cs = [c0, c1, c2, c3, c4, c5, c6]"
    "P g0 c0" "P g1 c1" "P g2 c2" "P g3 c3" "P g4 c4" "P g5 c5" "P g6 c6"
  using assms by (clarsimp simp: list_all2_Cons1)

lemma match_format_sound:
  assumes "match_groups format_regex tok = Some (caps, [])"
    and "length tok = 15" and "list_all token_char tok"
  shows "\<exists>y1 y2 y3 y4 m1 m2 d1 d2 h1 h2 n1 n2 s1 s2.
      tok = [y1, y2, y3, y4, m1, m2, d1, d2, CHR ''T'', h1, h2, n1, n2, s1, s2]
    \<and> caps = [[y1, y2, y3, y4], [m1, m2], [d1, d2], ''T'', [h1, h2], [n1, n2], [s1, s2]]
    \<and> y1 \<in> set digits \<and> y2 \<in> set digits \<and> y3 \<in> set digits \<and> y4 \<in> set digits
    \<and> month_text m1 m2 \<and> day_text d1 d2 \<and> hour_text h1 h2 \<and> minute_text n1 n2
    \<and> second_text s1 s2"
proof -
  from match_groups_sound[OF assms(1)]
  have t: "tok = concat caps" and a: "list_all2 accepts format_regex caps" by auto
  from a[unfolded format_regex_def]
  obtain c0 c1 c2 c3 c4 c5 c6 where caps: "caps = [c0, c1, c2, c3, c4, c5, c6]"
    and acc: "accepts directive_Y c0" "accepts directive_m c1" "accepts directive_d c2"
      "accepts literal_T c3" "accepts directive_H c4" "accepts directive_M c5"
      "accepts directive_S c6"
    by (rule list_all2_seven)
  from accepts_Y[OF acc(1)] obtain y1 y2 y3 y4 where c0: "c0 = [y1, y2, y3, y4]"
    and y: "y1 \<in> set digits" "y2 \<in> set digits" "y3 \<in> set digits" "y4 \<in> set digits"
    by blast
  have l3: "length c3 = 1" using accepts_T[OF acc(4)] by auto
  have len: "length c1 + length c2 + length c4 + length c5 + length c6 = 10"
    using assms(2) by (simp add: t caps c0 l3)
  note b = accepts_m[OF acc(2)] accepts_d[OF acc(3)] accepts_H[OF acc(5)] accepts_M[OF acc(6)]
    accepts_S[OF acc(7)]
  have ub: "length c1 \<le> 2" "length c2 \<le> 2" "length c4 \<le> 2" "length c5 \<le> 2"
      "length c6 \<le> 2"
    using b by blast+
  have l: "length c1 = 2" "length c2 = 2" "length c4 = 2" "length c5 = 2" "length c6 = 2"
    using len ub by linarith+
  from b(1) l(1) obtain m1 m2 where c1: "c1 = [m1, m2]" "month_text m1 m2" by blast
  from b(2) l(2) obtain d1 d2 where c2: "c2 = [d1, d2]" "day_text d1 d2 \<or> d1 = CHR '' ''" by blast
  from b(3) l(3) obtain h1 h2 where c4: "c4 = [h1, h2]" "hour_text h1 h2" by blast
  from b(4) l(4) obtain n1 n2 where c5: "c5 = [n1, n2]" "minute_text n1 n2" by blast
  from b(5) l(5) obtain s1 s2 where c6: "c6 = [s1, s2]" "second_text s1 s2" by blast
  have tok: "tok = [y1, y2, y3, y4, m1, m2, d1, d2] @ c3 @ [h1, h2, n1, n2, s1, s2]"
    by (simp add: t caps c0 c1 c2 c4 c5 c6)
  have "token_char d1" and "list_all token_char c3"
    using assms(3) by (simp_all add: tok)
  then have d: "day_text d1 d2" and c3: "c3 = ''T''"
    using c2(2) accepts_T[OF acc(4)] not_token_char by auto
  have tok': "tok = [y1, y2, y3, y4, m1, m2, d1, d2, CHR ''T'', h1, h2, n1, n2, s1, s2]"
    by (simp add: tok c3)
  have caps': "caps = [[y1, y2, y3, y4], [m1, m2], [d1, d2], ''T'', [h1, h2], [n1, n2], [s1, s2]]"
    by (simp add: caps c0 c1 c2 c3 c4 c5 c6)
  show ?thesis
    by (rule exI[of _ y1], rule exI[of _ y2], rule exI[of _ y3], rule exI[of _ y4], rule exI[of _ m1], rule exI[of _ m2], rule exI[of _ d1], rule exI[of _ d2], rule exI[of _ h1], rule exI[of _ h2], rule exI[of _ n1], rule exI[of _ n2], rule exI[of _ s1], rule exI[of _ s2],
        intro conjI tok' caps' y c1(2) d c4(2) c5(2) c6(2))
qed

subsection \<open>strptime on tokens of 15 characters\<close>

lemma strptime_error: "strptime s = Inl e \<Longrightarrow> e = ValueError"
  unfolding strptime_def make_datetime_def
  by (simp split: option.splits if_splits prod.splits)

lemma length_15:
  assumes "length xs = 15"
  obtains c0 c1 c2 c3 c4 c5 c6 c7 c8 c9 c10 c11 c12 c13 c14
  where "xs = [c0, c1, c2, c3, c4, c5, c6, c7, c8, c9, c10, c11, c12, c13, c14]"
proof -
  from assms have "length xs = Suc (Suc (Suc (Suc (Suc (Suc (Suc (Suc (Suc (Suc (Suc (Suc (Suc (Suc (Suc 0))))))))))))))"
    by simp
  then show ?thesis using that by (clarsimp simp: length_Suc_conv)
qed

lemma token_explicit:
  assumes "spec_token_shape tok"
  obtains y1 y2 y3 y4 m1 m2 d1 d2 h1 h2 n1 n2 s1 s2
  where "tok = [y1, y2, y3, y4, m1, m2, d1, d2, CHR ''T'', h1, h2, n1, n2, s1, s2]"
    "y1 \<in> set digits" "y2 \<in> set digits" "y3 \<in> set digits" "y4 \<in> set digits"
    "m1 \<in> set digits" "m2 \<in> set digits" "d1 \<in> set digits" "d2 \<in> set digits"
    "h1 \<in> set digits" "h2 \<in> set digits" "n1 \<in> set digits" "n2 \<in> set digits"
    "s1 \<in> set digits" "s2 \<in> set digits"
proof -
  from assms have l: "length tok = 15" by (simp add: spec_token_shape_def)
  from length_15[OF l] obtain c0 c1 c2 c3 c4 c5 c6 c7 c8 c9 c10 c11 c12 c13 c14
    where t: "tok = [c0, c1, c2, c3, c4, c5, c6, c7, c8, c9, c10, c11, c12, c13, c14]" .
  from assms have "c8 = CHR ''T''" and "list_all (\<lambda>c. c \<in> set digits) [c0, c1, c2, c3, c4, c5, c6, c7]"
    and "list_all (\<lambda>c. c \<in> set digits) [c9, c10, c11, c12, c13, c14]"
    unfolding spec_token_shape_def t by simp_all
  then show ?thesis using that[of c0 c1 c2 c3 c4 c5 c6 c7 c9 c10 c11 c12 c13 c14] t by simp
qed


lemma text_digits:
  "month_text a b \<Longrightarrow> a \<in> set digits \<and> b \<in> set digits"
  "day_text a b \<Longrightarrow> a \<in> set digits \<and> b \<in> set digits"
  "hour_text a b \<Longrightarrow> a \<in> set digits \<and> b \<in> set digits"
  "minute_text a b \<Longrightarrow> a \<in> set digits \<and> b \<in> set digits"
  "second_text a b \<Longrightarrow> a \<in> set digits \<and> b \<in> set digits"
  unfolding month_text_def day_text_def hour_text_def minute_text_def second_text_def
    digits_def nonzero_def
  by auto

lemma days_in_month_le: "1 \<le> m \<Longrightarrow> m \<le> 12 \<Longrightarrow> days_in_month y m \<le> 31"
proof -
  assume "1 \<le> m" "m \<le> 12"
  then have "m = 1 \<or> m = 2 \<or> m = 3 \<or> m = 4 \<or> m = 5 \<or> m = 6 \<or> m = 7 \<or> m = 8
      \<or> m = 9 \<or> m = 10 \<or> m = 11 \<or> m = 12" by arith
  then show ?thesis
    by (elim disjE) (simp_all add: days_in_month_def DAYS_IN_MONTH_def)
qed

lemma decode_explicit:
  "decode_token [y1, y2, y3, y4, m1, m2, d1, d2, t, h1, h2, n1, n2, s1, s2] =
     \<lparr>year = int_of_text [y1, y2, y3, y4], month = int_of_text [m1, m2],
      day = int_of_text [d1, d2], hour = int_of_text [h1, h2],
      minute = int_of_text [n1, n2], second = int_of_text [s1, s2]\<rparr>"
  by (simp add: decode_token_def)

lemma strptime_explicit:
  assumes "match_groups format_regex tok
      = Some ([[y1, y2, y3, y4], [m1, m2], [d1, d2], ''T'', [h1, h2], [n1, n2], [s1, s2]], [])"
  shows "strptime tok = make_datetime (int_of_text [y1, y2, y3, y4]) (int_of_text [m1, m2])
      (int_of_text [d1, d2]) (int_of_text [h1, h2]) (int_of_text [n1, n2]) (int_of_text [s1, s2])"
  by (simp add: strptime_def assms)

lemma year_bound:
  assumes "y1 \<in> set digits" "y2 \<in> set digits" "y3 \<in> set digits" "y4 \<in> set digits"
  shows "int_of_text [y1, y2, y3, y4] \<le> 9999"
  using assms[THEN digit_value_bound] by (simp add: int_of_text4[OF assms])

lemma make_datetime_valid:
  "make_datetime y mo d h mi s = Inr dt \<longleftrightarrow>
     dt = \<lparr>year = y, month = mo, day = d, hour = h, minute = mi, second = s\<rparr>
     \<and> valid_datetime \<lparr>year = y, month = mo, day = d, hour = h, minute = mi, second = s\<rparr>
     \<and> y \<le> 9999"
  by (auto simp: make_datetime_def valid_datetime_def)

lemma strptime_valid:
  assumes "spec_valid_token tok"
  shows "strptime tok = Inr (decode_token tok)"
proof -
  from assms have sh: "spec_token_shape tok" and v: "valid_datetime (decode_token tok)"
    by (simp_all add: spec_valid_token_def)
  from token_explicit[OF sh] obtain y1 y2 y3 y4 m1 m2 d1 d2 h1 h2 n1 n2 s1 s2
    where t: "tok = [y1, y2, y3, y4, m1, m2, d1, d2, CHR ''T'', h1, h2, n1, n2, s1, s2]"
      and y: "y1 \<in> set digits" "y2 \<in> set digits" "y3 \<in> set digits" "y4 \<in> set digits"
      and m: "m1 \<in> set digits" "m2 \<in> set digits" and d: "d1 \<in> set digits" "d2 \<in> set digits"
      and h: "h1 \<in> set digits" "h2 \<in> set digits" and n: "n1 \<in> set digits" "n2 \<in> set digits"
      and s: "s1 \<in> set digits" "s2 \<in> set digits"
    by blast
  let ?dt = "\<lparr>year = int_of_text [y1, y2, y3, y4], month = int_of_text [m1, m2],
      day = int_of_text [d1, d2], hour = int_of_text [h1, h2],
      minute = int_of_text [n1, n2], second = int_of_text [s1, s2]\<rparr>"
  have dec: "decode_token tok = ?dt" unfolding t by (rule decode_explicit)
  from v have vd: "valid_datetime ?dt" by (simp only: dec)
  then have mo: "1 \<le> int_of_text [m1, m2]" "int_of_text [m1, m2] \<le> 12"
    and da: "1 \<le> int_of_text [d1, d2]"
      "int_of_text [d1, d2] \<le> days_in_month (int_of_text [y1, y2, y3, y4]) (int_of_text [m1, m2])"
    and ho: "int_of_text [h1, h2] < 24" and mi: "int_of_text [n1, n2] < 60"
    and se: "int_of_text [s1, s2] < 60"
    by (simp_all add: valid_datetime_def)
  have da31: "int_of_text [d1, d2] \<le> 31"
    using da(2) days_in_month_le[OF mo] by (rule order_trans)
  have "month_text m1 m2"
    using mo by (intro month_text_of_value m) (simp_all add: int_of_text2[OF m])
  moreover have "day_text d1 d2"
    using da(1) da31 by (intro day_text_of_value d) (simp_all add: int_of_text2[OF d])
  moreover have "hour_text h1 h2"
    using ho by (intro hour_text_of_value h) (simp_all add: int_of_text2[OF h])
  moreover have "minute_text n1 n2"
    using mi by (intro minute_text_of_value n) (simp_all add: int_of_text2[OF n])
  moreover have "second_text s1 s2"
    using se by (intro second_text_of_value s) (simp_all add: int_of_text2[OF s])
  ultimately have "match_groups format_regex tok
      = Some ([[y1, y2, y3, y4], [m1, m2], [d1, d2], ''T'', [h1, h2], [n1, n2], [s1, s2]], [])"
    unfolding t by (rule match_format[OF y])
  then have "strptime tok = make_datetime (int_of_text [y1, y2, y3, y4]) (int_of_text [m1, m2])
      (int_of_text [d1, d2]) (int_of_text [h1, h2]) (int_of_text [n1, n2]) (int_of_text [s1, s2])"
    by (rule strptime_explicit)
  also have "\<dots> = Inr ?dt"
    using vd year_bound[OF y] by (simp only: make_datetime_valid simp_thms)
  finally show ?thesis by (simp only: dec)
qed

lemma strptime_token:
  assumes "length tok = 15" and "list_all token_char tok" and "strptime tok = Inr dt"
  shows "spec_valid_token tok \<and> dt = decode_token tok"
proof -
  from assms(3) obtain caps where mg: "match_groups format_regex tok = Some (caps, [])"
    by (auto simp: strptime_def split: option.splits if_splits)
  from match_format_sound[OF mg assms(1,2)]
  obtain y1 y2 y3 y4 m1 m2 d1 d2 h1 h2 n1 n2 s1 s2
    where t: "tok = [y1, y2, y3, y4, m1, m2, d1, d2, CHR ''T'', h1, h2, n1, n2, s1, s2]"
      and c: "caps = [[y1, y2, y3, y4], [m1, m2], [d1, d2], ''T'', [h1, h2], [n1, n2], [s1, s2]]"
      and y: "y1 \<in> set digits" "y2 \<in> set digits" "y3 \<in> set digits" "y4 \<in> set digits"
      and tx: "month_text m1 m2" "day_text d1 d2" "hour_text h1 h2" "minute_text n1 n2"
        "second_text s1 s2"
    by blast
  let ?dt = "\<lparr>year = int_of_text [y1, y2, y3, y4], month = int_of_text [m1, m2],
      day = int_of_text [d1, d2], hour = int_of_text [h1, h2],
      minute = int_of_text [n1, n2], second = int_of_text [s1, s2]\<rparr>"
  have dec: "decode_token tok = ?dt" unfolding t by (rule decode_explicit)
  have sh: "spec_token_shape tok"
    unfolding t spec_token_shape_def
    using y text_digits(1)[OF tx(1)] text_digits(2)[OF tx(2)] text_digits(3)[OF tx(3)]
      text_digits(4)[OF tx(4)] text_digits(5)[OF tx(5)]
    by simp
  from mg[unfolded c] have "strptime tok = make_datetime (int_of_text [y1, y2, y3, y4])
      (int_of_text [m1, m2]) (int_of_text [d1, d2]) (int_of_text [h1, h2])
      (int_of_text [n1, n2]) (int_of_text [s1, s2])"
    by (rule strptime_explicit)
  with assms(3) have "dt = ?dt \<and> valid_datetime ?dt"
    by (simp only: make_datetime_valid)
  then show ?thesis by (simp add: spec_valid_token_def sh dec)
qed

subsection \<open>The first match of findall\<close>

lemma run_at_Nil: "\<not> run_at [] i"
  by (simp add: run_at_def)

lemma run_at_Cons_Suc: "run_at (c # cs) (Suc i) = run_at cs i"
  by (simp add: run_at_def add.commute)

lemma run_at_0: "run_at s 0 \<longleftrightarrow> 15 \<le> length s \<and> list_all token_char (take 15 s)"
  by (simp add: run_at_def)

lemma findall_Cons:
  "findall (c # cs) =
     (if run_at (c # cs) 0 then take 15 (c # cs) # findall (drop 15 (c # cs)) else findall cs)"
  by (simp only: findall.simps run_at_0)

lemma ex_run_at_Cons: "(\<exists>i. run_at (c # cs) i) \<longleftrightarrow> run_at (c # cs) 0 \<or> (\<exists>i. run_at cs i)"
proof
  assume "\<exists>i. run_at (c # cs) i"
  then obtain i where i: "run_at (c # cs) i" ..
  then show "run_at (c # cs) 0 \<or> (\<exists>i. run_at cs i)"
    by (cases i) (auto simp: run_at_Cons_Suc)
next
  assume "run_at (c # cs) 0 \<or> (\<exists>i. run_at cs i)"
  then show "\<exists>i. run_at (c # cs) i"
    using run_at_Cons_Suc by blast
qed

lemma findall_Nil_iff: "findall s = [] \<longleftrightarrow> \<not> (\<exists>i. run_at s i)"
proof (induction s)
  case Nil
  then show ?case by (simp add: run_at_Nil)
next
  case (Cons c cs)
  show ?case
    unfolding ex_run_at_Cons findall_Cons using Cons.IH by simp
qed

lemma findall_first:
  assumes "length tok = 15" and "list_all token_char tok"
    and "\<forall>j<length pre. \<not> run_at (pre @ tok @ post) j"
  shows "\<exists>others. findall (pre @ tok @ post) = tok # others"
  using assms(3)
proof (induction pre)
  case Nil
  obtain c cs where t: "tok = c # cs" using assms(1) by (cases tok) auto
  have "run_at (tok @ post) 0" using assms(1,2) by (simp add: run_at_0)
  moreover have "take 15 (tok @ post) = tok" using assms(1) by simp
  ultimately show ?case
    using findall_Cons[of c "cs @ post"] by (simp add: t)
next
  case (Cons p pre)
  from Cons.prems have "\<not> run_at ((p # pre) @ tok @ post) 0" by auto
  then have f: "findall ((p # pre) @ tok @ post) = findall (pre @ tok @ post)"
    using findall_Cons[of p "pre @ tok @ post"] by simp
  have "\<forall>j<length pre. \<not> run_at (pre @ tok @ post) j"
  proof (intro allI impI)
    fix j assume "j < length pre"
    with Cons.prems have "\<not> run_at ((p # pre) @ tok @ post) (Suc j)" by auto
    then show "\<not> run_at (pre @ tok @ post) j" by (simp add: run_at_Cons_Suc)
  qed
  from Cons.IH[OF this] f show ?case by simp
qed

subsection \<open>Ordinals and elapsed days\<close>

lemma div_step:
  fixes y d :: nat
  assumes "0 < d"
  shows "int y div int d = (int y - 1) div int d + (if y mod d = 0 then 1 else 0)"
proof -
  let ?q = "int (y div d)"
  let ?r = "int (y mod d)"
  have y: "int y = int d * ?q + ?r"
    by (simp flip: of_nat_mult of_nat_add)
  have q: "int y div int d = ?q" by (simp add: zdiv_int)
  show ?thesis
  proof (cases "y mod d = 0")
    case True
    have "int y - 1 = int d * (?q - 1) + (int d - 1)"
      using y True by (simp add: algebra_simps)
    then have "(int y - 1) div int d = ?q - 1"
      by (rule int_div_pos_eq) (use assms in auto)
    with q True show ?thesis by simp
  next
    case False
    have "int y - 1 = int d * ?q + (?r - 1)"
      using y by simp
    moreover have "y mod d < d" using assms by simp
    ultimately have "(int y - 1) div int d = ?q"
      using False by (intro int_div_pos_eq[of _ _ _ "?r - 1"]) auto
    with q False show ?thesis by simp
  qed
qed

lemma leap_mod:
  fixes y :: nat
  shows "y mod 400 = 0 \<Longrightarrow> y mod 100 = 0" and "y mod 100 = 0 \<Longrightarrow> y mod 4 = 0"
proof -
  assume "y mod 400 = 0"
  then have "400 dvd y" by (simp add: dvd_eq_mod_eq_0)
  moreover have "(100::nat) dvd 400" by simp
  ultimately have "100 dvd y" by (rule dvd_trans[rotated])
  then show "y mod 100 = 0" by simp
next
  assume "y mod 100 = 0"
  then have "100 dvd y" by (simp add: dvd_eq_mod_eq_0)
  moreover have "(4::nat) dvd 100" by simp
  ultimately have "4 dvd y" by (rule dvd_trans[rotated])
  then show "y mod 4 = 0" by simp
qed

lemma days_before_year_Suc:
  "days_before_year (Suc y) = days_before_year y + int (days_in_year y)"
proof -
  have s: "int y div 4 = (int y - 1) div 4 + (if y mod 4 = 0 then 1 else 0)"
    "int y div 100 = (int y - 1) div 100 + (if y mod 100 = 0 then 1 else 0)"
    "int y div 400 = (int y - 1) div 400 + (if y mod 400 = 0 then 1 else 0)"
    using div_step[of 4 y, unfolded of_nat_numeral] div_step[of 100 y, unfolded of_nat_numeral]
      div_step[of 400 y, unfolded of_nat_numeral]
    by (simp_all only: zero_less_numeral simp_thms)
  have "days_before_year (Suc y) = int y * 365 + int y div 4 - int y div 100 + int y div 400"
    by (simp add: days_before_year_def Let_def)
  also have "\<dots> = (int y - 1) * 365 + (int y - 1) div 4 - (int y - 1) div 100
      + (int y - 1) div 400
      + (365 + (if y mod 4 = 0 then 1 else 0) - (if y mod 100 = 0 then 1 else 0)
          + (if y mod 400 = 0 then 1 else 0))"
    by (simp only: s) (simp add: algebra_simps)
  also have "365 + (if y mod 4 = 0 then 1 else 0) - (if y mod 100 = 0 then 1 else 0)
          + (if y mod 400 = 0 then 1 else 0) = int (days_in_year y)"
    using leap_mod[of y] by (auto simp: days_in_year_def is_leap_def)
  also have "(int y - 1) * 365 + (int y - 1) div 4 - (int y - 1) div 100
      + (int y - 1) div 400 = days_before_year y"
    by (simp add: days_before_year_def Let_def)
  finally show ?thesis .
qed


lemma year_days_from:
  "1900 \<le> y \<Longrightarrow>
     days_before_year y - days_before_year 1900 = int (sum_list (map days_in_year [1900..<y]))"
proof (induction y rule: dec_induct)
  case base
  then show ?case by simp
next
  case (step n)
  then show ?case by (simp add: days_before_year_Suc)
qed

lemma year_days_to:
  "y \<le> 1900 \<Longrightarrow>
     days_before_year 1900 - days_before_year y = int (sum_list (map days_in_year [y..<1900]))"
proof (induction y rule: inc_induct)
  case base
  then show ?case by simp
next
  case (step n)
  then show ?case by (simp add: days_before_year_Suc upt_conv_Cons)
qed

lemma month_days:
  assumes "1 \<le> m" "m \<le> 12"
  shows "days_before_month y m = int (sum_list (map (days_in_month y) [1..<m]))"
proof -
  from assms have "m = 1 \<or> m = 2 \<or> m = 3 \<or> m = 4 \<or> m = 5 \<or> m = 6 \<or> m = 7 \<or> m = 8
      \<or> m = 9 \<or> m = 10 \<or> m = 11 \<or> m = 12" by arith
  then show ?thesis
    by (elim disjE)
      (simp_all add: days_before_month_def DAYS_BEFORE_MONTH_def days_in_month_def
        DAYS_IN_MONTH_def upt_rec[of _ "numeral _"])
qed

lemma toordinal_epoch: "toordinal epoch = days_before_year 1900 + 1"
  by (simp add: toordinal_def epoch_def days_before_month_def DAYS_BEFORE_MONTH_def)

lemma total_seconds_sub_epoch:
  "total_seconds (datetime_sub dt epoch)
     = (toordinal dt - toordinal epoch) * 86400
       + (int (second dt) + int (minute dt) * 60 + int (hour dt) * 3600)"
proof -
  have "(s div 86400) * 86400 + s mod 86400 = s" for s :: int by simp
  then show ?thesis
    by (simp add: total_seconds_def datetime_sub_def Let_def epoch_def algebra_simps)
qed

lemma total_seconds_elapsed:
  assumes "valid_datetime dt"
  shows "total_seconds (datetime_sub dt epoch) = spec_elapsed_seconds dt"
proof -
  from assms have m: "1 \<le> month dt" "month dt \<le> 12" by (simp_all add: valid_datetime_def)
  have y: "days_before_year (year dt) - days_before_year 1900
      = (if 1900 \<le> year dt then int (sum_list (map days_in_year [1900..<year dt]))
         else - int (sum_list (map days_in_year [year dt..<1900])))"
    using year_days_from[of "year dt"] year_days_to[of "year dt"] by auto
  have "toordinal dt - toordinal epoch
      = (days_before_year (year dt) - days_before_year 1900)
        + days_before_month (year dt) (month dt) + int (day dt) - 1"
    by (simp only: toordinal_epoch) (simp add: toordinal_def)
  also have "\<dots> = spec_days_since_1900 (year dt) (month dt) (day dt)"
    by (simp only: y month_days[OF m] spec_days_since_1900_def)
  finally show ?thesis
    by (simp add: total_seconds_sub_epoch spec_elapsed_seconds_def)
qed

subsection \<open>seconds\<close>

lemma digit_token_char: "c \<in> set digits \<Longrightarrow> token_char c"
  by (auto simp: digits_def token_char_def)

lemma shape_token_chars:
  assumes "spec_token_shape tok"
  shows "length tok = 15" and "list_all token_char tok"
proof -
  show "length tok = 15" using assms by (simp add: spec_token_shape_def)
  from token_explicit[OF assms] obtain y1 y2 y3 y4 m1 m2 d1 d2 h1 h2 n1 n2 s1 s2
    where t: "tok = [y1, y2, y3, y4, m1, m2, d1, d2, CHR ''T'', h1, h2, n1, n2, s1, s2]"
      and d: "y1 \<in> set digits" "y2 \<in> set digits" "y3 \<in> set digits" "y4 \<in> set digits"
        "m1 \<in> set digits" "m2 \<in> set digits" "d1 \<in> set digits" "d2 \<in> set digits"
        "h1 \<in> set digits" "h2 \<in> set digits" "n1 \<in> set digits" "n2 \<in> set digits"
        "s1 \<in> set digits" "s2 \<in> set digits"
    by blast
  have "token_char CHR ''T''" by (simp add: token_char_def)
  with d[THEN digit_token_char] show "list_all token_char tok" by (simp add: t)
qed

lemma seconds_first_token:
  assumes "findall filename = tok # others"
  shows "seconds filename =
     (case strptime tok of Inl e \<Rightarrow> Inl e | Inr dt \<Rightarrow> Inr (total_seconds (datetime_sub dt epoch)))"
  by (simp add: seconds_def assms)

lemma seconds_IndexError_iff: "seconds filename = Inl IndexError \<longleftrightarrow> findall filename = []"
proof (cases "findall filename")
  case Nil
  then show ?thesis by (simp add: seconds_def)
next
  case (Cons tok others)
  have "seconds filename \<noteq> Inl IndexError"
  proof (cases "strptime tok")
    case (Inl e)
    then have "e = ValueError" by (rule strptime_error)
    with Inl show ?thesis by (simp add: seconds_first_token[OF Cons])
  next
    case (Inr dt)
    then show ?thesis by (simp add: seconds_first_token[OF Cons])
  qed
  with Cons show ?thesis by simp
qed

lemma all_less_list_all: "(\<forall>j<n. P j) \<longleftrightarrow> list_all P [0..<n]"
  by (auto simp: list_all_iff)

text \<open>
  C3, as stated: seconds raises the "no match" error (IndexError) exactly when the file
  name holds no substring of the shape 8 digits, \<open>T\<close>, 6 digits. It fails for a name
  with 15 digits in a row: the name holds no such substring, yet the expression
  \<^verbatim>\<open>[0-9T]{15}\<close> matches and the error is the parse error (ValueError).
\<close>

theorem seconds_errors_counterexample:
  "\<not> spec_contains_shape ''S1A_123456789012345.tif''
   \<and> seconds ''S1A_123456789012345.tif'' = Inl ValueError"
  by code_simp

text \<open>
  C3, amended: seconds raises IndexError exactly when the file name holds no run of 15
  characters that each are a digit or \<open>T\<close>; when the first such run is not a valid
  date-time token \<open>YYYYMMDDThhmmss\<close>, seconds raises ValueError.
\<close>

theorem seconds_errors:
  "(seconds filename = Inl IndexError \<longleftrightarrow> \<not> (\<exists>i. run_at filename i))
   \<and> (filename = pre @ tok @ post \<and> length tok = 15 \<and> list_all token_char tok
        \<and> (\<forall>j<length pre. \<not> run_at filename j) \<and> \<not> spec_valid_token tok
      \<longrightarrow> seconds filename = Inl ValueError)"
proof (intro conjI impI)
  show "seconds filename = Inl IndexError \<longleftrightarrow> \<not> (\<exists>i. run_at filename i)"
    by (simp only: seconds_IndexError_iff findall_Nil_iff)
next
  assume a: "filename = pre @ tok @ post \<and> length tok = 15 \<and> list_all token_char tok
        \<and> (\<forall>j<length pre. \<not> run_at filename j) \<and> \<not> spec_valid_token tok"
  then have l: "length tok = 15" and c: "list_all token_char tok" by simp_all
  from findall_first[OF l c] a obtain others where f: "findall filename = tok # others" by blast
  show "seconds filename = Inl ValueError"
  proof (cases "strptime tok")
    case (Inl e)
    then have "e = ValueError" by (rule strptime_error)
    with Inl show ?thesis by (simp add: seconds_first_token[OF f])
  next
    case (Inr dt)
    from strptime_token[OF l c Inr] a show ?thesis by simp
  qed
qed

theorem seconds_errors_witness:
  "seconds ''no_timestamp_here.tif'' = Inl IndexError
   \<and> \<not> (\<exists>i. run_at ''no_timestamp_here.tif'' i)
   \<and> ''x_20150231T000000.tif'' = ''x_'' @ ''20150231T000000'' @ ''.tif''
   \<and> length ''20150231T000000'' = 15 \<and> list_all token_char ''20150231T000000''
   \<and> list_all (\<lambda>j. \<not> run_at ''x_20150231T000000.tif'' j) [0..<length ''x_'']
   \<and> \<not> spec_valid_token ''20150231T000000''
   \<and> seconds ''x_20150231T000000.tif'' = Inl ValueError"
proof -
  have i: "seconds ''no_timestamp_here.tif'' = Inl IndexError" by code_simp
  have n: "\<not> (\<exists>i. run_at ''no_timestamp_here.tif'' i)"
    using i seconds_errors[of "''no_timestamp_here.tif''"] by blast
  have e: "''x_20150231T000000.tif'' = ''x_'' @ ''20150231T000000'' @ ''.tif''" by simp
  have l: "length ''20150231T000000'' = 15" by simp
  have c: "list_all token_char ''20150231T000000''" by code_simp
  have r: "list_all (\<lambda>j. \<not> run_at ''x_20150231T000000.tif'' j) [0..<length ''x_'']"
    by code_simp
  then have r': "\<forall>j<length ''x_''. \<not> run_at ''x_20150231T000000.tif'' j"
    by (simp only: all_less_list_all)
  have v: "\<not> spec_valid_token ''20150231T000000''" by code_simp
  have "seconds ''x_20150231T000000.tif'' = Inl ValueError"
    using seconds_errors[of "''x_20150231T000000.tif''" "''x_''" "''20150231T000000''" "''.tif''"]
      e l c r' v by blast
  with i n e l c r v show ?thesis by blast
qed

text \<open>
  C6, as stated: for every file name that contains a valid date-time token, seconds
  returns the seconds elapsed from 1900-01-01T00:00:00 to it. It fails when 15 digits
  stand before the token: seconds reads the first run of 15 digits or \<open>T\<close>, and
  raises ValueError.
\<close>

theorem seconds_elapsed_counterexample:
  "spec_contains_valid_token ''000000000000000_20150309T173017.tif''
   \<and> seconds ''000000000000000_20150309T173017.tif'' = Inl ValueError"
  by code_simp

text \<open>
  C6, amended: when the first run of 15 characters that each are a digit or \<open>T\<close> is a
  valid date-time token, seconds returns the seconds elapsed from 1900-01-01T00:00:00
  to the date-time the token encodes, counted day by day over the Gregorian calendar;
  for the token 20150309T173017 that is 3634911017.
\<close>

theorem seconds_elapsed:
  assumes "filename = pre @ tok @ post" and "spec_valid_token tok"
    and "\<forall>j<length pre. \<not> run_at filename j"
  shows "seconds filename = Inr (spec_elapsed_seconds (decode_token tok))"
proof -
  from assms(2) have sh: "spec_token_shape tok" and v: "valid_datetime (decode_token tok)"
    by (simp_all add: spec_valid_token_def)
  from findall_first[OF shape_token_chars[OF sh]] assms(1,3)
  obtain others where f: "findall filename = tok # others" by blast
  have "strptime tok = Inr (decode_token tok)" using assms(2) by (rule strptime_valid)
  then have "seconds filename = Inr (total_seconds (datetime_sub (decode_token tok) epoch))"
    by (simp add: seconds_first_token[OF f])
  then show ?thesis by (simp only: total_seconds_elapsed[OF v])
qed

theorem seconds_elapsed_witness:
  "''S1A__IW___A_20150309T173017_VV_grd_mli_geo_norm_db.tif''
      = ''S1A__IW___A_'' @ ''20150309T173017'' @ ''_VV_grd_mli_geo_norm_db.tif''
   \<and> spec_valid_token ''20150309T173017''
   \<and> list_all (\<lambda>j. \<not> run_at ''S1A__IW___A_20150309T173017_VV_grd_mli_geo_norm_db.tif'' j)
        [0..<length ''S1A__IW___A_'']
   \<and> seconds ''S1A__IW___A_20150309T173017_VV_grd_mli_geo_norm_db.tif''
        = Inr (spec_elapsed_seconds (decode_token ''20150309T173017''))
   \<and> seconds ''S1A__IW___A_20150309T173017_VV_grd_mli_geo_norm_db.tif'' = Inr 3634911017"
proof -
  let ?f = "''S1A__IW___A_20150309T173017_VV_grd_mli_geo_norm_db.tif''"
  have e: "?f = ''S1A__IW___A_'' @ ''20150309T173017'' @ ''_VV_grd_mli_geo_norm_db.tif''"
    by simp
  have v: "spec_valid_token ''20150309T173017''" by code_simp
  have r: "list_all (\<lambda>j. \<not> run_at ?f j) [0..<length ''S1A__IW___A_'']" by code_simp
  then have r': "\<forall>j<length ''S1A__IW___A_''. \<not> run_at ?f j"
    by (simp only: all_less_list_all)
  have s: "seconds ?f = Inr 3634911017"
    by code_simp
  note seconds_elapsed[OF e v r']
  with e v r s show ?thesis by blast
qed

end
